theory Spec2Isabelle
  imports
    Complex_Main
    "HOL-Library.Char_ord"
    "HOL-Library.List_Lexorder"
    "HOL-Library.Monad_Syntax"
    "HOL-Library.Multiset"
    "HOL-Library.Sublist"
begin

section \<open>Python strings\<close>

text \<open>
  A Python \<open>str\<close> is modelled as a \<^typ>\<open>string\<close> whose characters are the code points
  below 256. The character classes below are Python's own on that range:
  \<open>str.isspace\<close> (also the regular expression class \<open>\s\<close> and what \<open>str.strip\<close> and
  \<open>str.split\<close> remove), \<open>str.isalpha\<close>, and \<open>str.lower\<close>.
\<close>

definition is_space :: "char \<Rightarrow> bool" where
  "is_space c =
     (let n = (of_char c :: nat)
      in (9 \<le> n \<and> n \<le> 13) \<or> (28 \<le> n \<and> n \<le> 32) \<or> n = 133 \<or> n = 160)"

definition is_ascii_lower :: "char \<Rightarrow> bool" where
  "is_ascii_lower c = (let n = (of_char c :: nat) in 97 \<le> n \<and> n \<le> 122)"

definition is_ascii_upper :: "char \<Rightarrow> bool" where
  "is_ascii_upper c = (let n = (of_char c :: nat) in 65 \<le> n \<and> n \<le> 90)"

definition is_ascii_alpha :: "char \<Rightarrow> bool" where
  "is_ascii_alpha c = (is_ascii_lower c \<or> is_ascii_upper c)"

definition is_digit :: "char \<Rightarrow> bool" where
  "is_digit c = (let n = (of_char c :: nat) in 48 \<le> n \<and> n \<le> 57)"

definition is_alpha_char :: "char \<Rightarrow> bool" where
  "is_alpha_char c =
     (let n = (of_char c :: nat)
      in is_ascii_alpha c \<or> n = 170 \<or> n = 181 \<or> n = 186
         \<or> (192 \<le> n \<and> n \<le> 214) \<or> (216 \<le> n \<and> n \<le> 246) \<or> 248 \<le> n)"

definition lower_char :: "char \<Rightarrow> char" where
  "lower_char c =
     (let n = (of_char c :: nat)
      in if is_ascii_upper c \<or> (192 \<le> n \<and> n \<le> 214) \<or> (216 \<le> n \<and> n \<le> 222)
         then char_of (n + 32) else c)"

definition lower :: "string \<Rightarrow> string" where
  "lower s = map lower_char s"

text \<open>\<open>s.isalpha()\<close>: non-empty and alphabetic throughout.\<close>

definition isalpha :: "string \<Rightarrow> bool" where
  "isalpha s = (s \<noteq> [] \<and> list_all is_alpha_char s)"

text \<open>
  \<open>s.split()\<close>: the maximal runs of non-whitespace characters, in order. The first
  argument is the run being read.
\<close>

fun split_ws_from :: "string \<Rightarrow> string \<Rightarrow> string list" where
  "split_ws_from cur [] = (if cur = [] then [] else [cur])"
| "split_ws_from cur (c # cs) =
     (if is_space c
      then (if cur = [] then split_ws_from [] cs else cur # split_ws_from [] cs)
      else split_ws_from (cur @ [c]) cs)"

definition split_ws :: "string \<Rightarrow> string list" where
  "split_ws s = split_ws_from [] s"

text \<open>
  \<open>xs[:k]\<close>: the first \<open>k\<close> elements, and for a negative \<open>k\<close> all but the last \<open>-k\<close>.
\<close>

definition slice_to :: "int \<Rightarrow> 'a list \<Rightarrow> 'a list" where
  "slice_to k xs = (if 0 \<le> k then take (nat k) xs else take (nat (int (length xs) + k)) xs)"

text \<open>\<open>s.strip()\<close>, \<open>s.lstrip('-')\<close>, \<open>s.startswith(p)\<close>, \<open>sep.join(xs)\<close> and \<open>s.split(sep)\<close>.\<close>

definition lstrip :: "string \<Rightarrow> string" where
  "lstrip s = dropWhile is_space s"

definition rstrip :: "string \<Rightarrow> string" where
  "rstrip s = rev (dropWhile is_space (rev s))"

definition strip :: "string \<Rightarrow> string" where
  "strip s = rstrip (lstrip s)"

definition lstrip_char :: "char \<Rightarrow> string \<Rightarrow> string" where
  "lstrip_char c s = dropWhile (\<lambda>x. x = c) s"

definition startswith :: "string \<Rightarrow> string \<Rightarrow> bool" where
  "startswith p s = (take (length p) s = p)"

fun join :: "string \<Rightarrow> string list \<Rightarrow> string" where
  "join sep [] = []"
| "join sep [x] = x"
| "join sep (x # y # ys) = x @ sep @ join sep (y # ys)"

text \<open>
  \<open>s.split(c)\<close> for a one-character separator: the fields between the separators, of
  which there is always at least one. The first argument is the field being read.
\<close>

fun split_from :: "char \<Rightarrow> string \<Rightarrow> string \<Rightarrow> string list" where
  "split_from sep cur [] = [cur]"
| "split_from sep cur (c # cs) =
     (if c = sep then cur # split_from sep [] cs else split_from sep (cur @ [c]) cs)"

definition split_on :: "char \<Rightarrow> string \<Rightarrow> string list" where
  "split_on sep s = split_from sep [] s"

text \<open>\<open>int(s)\<close> on a string of decimal digits, and the format \<open>{n:02d}\<close>.\<close>

definition digit_value :: "char \<Rightarrow> nat" where
  "digit_value c = of_char c - 48"

definition int_of_digits :: "string \<Rightarrow> nat" where
  "int_of_digits s = foldl (\<lambda>n c. 10 * n + digit_value c) 0 s"

definition digit_char :: "nat \<Rightarrow> char" where
  "digit_char d = char_of (48 + d)"

fun decimal :: "nat \<Rightarrow> string" where
  "decimal n = (if n < 10 then [digit_char n] else decimal (n div 10) @ [digit_char (n mod 10)])"

declare decimal.simps [simp del]

definition zero_pad :: "nat \<Rightarrow> string \<Rightarrow> string" where
  "zero_pad w s = replicate (w - length s) (CHR ''0'') @ s"

definition format_02d :: "nat \<Rightarrow> string" where
  "format_02d n = zero_pad 2 (decimal n)"

section \<open>Regular expressions\<close>

text \<open>
  The patterns of \<open>convert_journal.py\<close> are sequences of greedy repetitions of character
  classes, optional groups and alternatives. Each piece is modelled as the list of the
  ways it can match at the start of the input, in the order in which the backtracking
  matcher tries them (longest repetition first, earlier alternative first); each way
  is the matched text and the rest of the input. Pieces are sequenced in the list
  monad, and the match that Python reports is the first element of the result.
\<close>

type_synonym matches = "(string \<times> string) list"

text \<open>The class \<open>\w\<close> on code points below 256; \<open>\d\<close> is \<^const>\<open>is_digit\<close> there.\<close>

definition is_word :: "char \<Rightarrow> bool" where
  "is_word c =
     (let n = (of_char c :: nat)
      in is_ascii_alpha c \<or> is_digit c \<or> n = 95 \<or> n = 170 \<or> n = 178 \<or> n = 179
         \<or> n = 181 \<or> n = 185 \<or> n = 186 \<or> (188 \<le> n \<and> n \<le> 190)
         \<or> (192 \<le> n \<and> n \<le> 214) \<or> (216 \<le> n \<and> n \<le> 246) \<or> 248 \<le> n)"

definition is_hex_lower :: "char \<Rightarrow> bool" where
  "is_hex_lower c = (let n = (of_char c :: nat) in is_digit c \<or> (97 \<le> n \<and> n \<le> 102))"

text \<open>\<open>C{lo,hi}\<close> for a character class \<open>C\<close>, greedy.\<close>

definition rep_class :: "(char \<Rightarrow> bool) \<Rightarrow> nat \<Rightarrow> nat \<Rightarrow> string \<Rightarrow> matches" where
  "rep_class P lo hi s =
     (let n = min hi (length (takeWhile P s))
      in map (\<lambda>k. (take k s, drop k s)) (rev [lo..<Suc n]))"

text \<open>\<open>C+\<close> and \<open>C*\<close>\<close>

definition plus_class :: "(char \<Rightarrow> bool) \<Rightarrow> string \<Rightarrow> matches" where
  "plus_class P s = rep_class P 1 (length s) s"

definition star_class :: "(char \<Rightarrow> bool) \<Rightarrow> string \<Rightarrow> matches" where
  "star_class P s = rep_class P 0 (length s) s"

text \<open>
  A literal (given in lower case) under \<open>re.IGNORECASE\<close>, an alternation of such
  literals, and the greedy optional group \<open>(?:...)?\<close>.
\<close>

definition lit_ci :: "string \<Rightarrow> string \<Rightarrow> matches" where
  "lit_ci w s =
     (if length w \<le> length s \<and> lower (take (length w) s) = w
      then [(take (length w) s, drop (length w) s)] else [])"

definition alt_ci :: "string list \<Rightarrow> string \<Rightarrow> matches" where
  "alt_ci ws s = concat (map (\<lambda>w. lit_ci w s) ws)"

definition optional :: "(string \<Rightarrow> matches) \<Rightarrow> string \<Rightarrow> matches" where
  "optional m s = m s @ [([], s)]"

definition first_match :: "'a list \<Rightarrow> 'a option" where
  "first_match ms = (case ms of [] \<Rightarrow> None | m # _ \<Rightarrow> Some m)"

section \<open>Journal conversion (\<open>convert_journal.py\<close>)\<close>

subsection \<open>\<open>extract_date_from_filename\<close>\<close>

text \<open>\<open>s.rfind(c)\<close>: the last index of \<open>c\<close>, or \<open>-1\<close>.\<close>

definition rfind :: "char \<Rightarrow> string \<Rightarrow> int" where
  "rfind c s =
     (case dropWhile (\<lambda>x. x \<noteq> c) (rev s) of [] \<Rightarrow> - 1 | _ # front \<Rightarrow> int (length front))"

text \<open>
  \<open>os.path.splitext(p)[0]\<close>: the path is cut at its last dot when that dot comes after
  the last separator and some character other than a dot stands between them.
\<close>

definition splitext_root :: "string \<Rightarrow> string" where
  "splitext_root p =
     (let sepIndex = rfind (CHR ''/'') p; dotIndex = rfind (CHR ''.'') p
      in if sepIndex < dotIndex
            \<and> list_ex (\<lambda>c. c \<noteq> CHR ''.'') (drop (nat (sepIndex + 1)) (take (nat dotIndex) p))
         then take (nat dotIndex) p else p)"

text \<open>
  \<open>re.sub(r'\s[a-f0-9]{32}$', '', s)\<close>. The anchor \<open>$\<close> holds at the end of the string and
  before a newline that ends it, so a match is a whitespace character followed by
  exactly the 32 hex digits that end the string (or that precede its final newline).
  The scan is from the left; what follows the leftmost match is too short to match again.
\<close>

definition hash_to_end :: "string \<Rightarrow> bool" where
  "hash_to_end cs =
     (list_all is_hex_lower (take 32 cs)
      \<and> (length cs = 32 \<or> (length cs = 33 \<and> cs ! 32 = CHR 0x0A)))"

fun sub_hash :: "string \<Rightarrow> string" where
  "sub_hash [] = []"
| "sub_hash (c # cs) =
     (if is_space c \<and> hash_to_end cs then drop 32 cs else c # sub_hash cs)"

text \<open>The first statement of the function: the cleaned name.\<close>

definition clean_name :: "string \<Rightarrow> string" where
  "clean_name filename = strip (sub_hash (splitext_root filename))"

text \<open>
  Patterns 1 and 2, \<open>^(?:\w+)\s+(\d{1,2})\s+(\d{1,2})\s+(\d{2,4})\<close> and
  \<open>^(\d{1,2})\s+(\d{1,2})\s+(\d{2,4})\<close>, matched at the start of the name. The result is
  the three groups and the text after \<open>match.end()\<close>.
\<close>

definition numeric_date :: "string \<Rightarrow> ((string \<times> string \<times> string) \<times> string) list" where
  "numeric_date s =
     do {
       (month, r1) \<leftarrow> rep_class is_digit 1 2 s;
       (sp1, r2) \<leftarrow> plus_class is_space r1;
       (day, r3) \<leftarrow> rep_class is_digit 1 2 r2;
       (sp2, r4) \<leftarrow> plus_class is_space r3;
       (year, r5) \<leftarrow> rep_class is_digit 2 4 r4;
       [((month, day, year), r5)]
     }"

definition pattern_1 :: "string \<Rightarrow> ((string \<times> string \<times> string) \<times> string) option" where
  "pattern_1 name =
     first_match (do {
       (word, r1) \<leftarrow> plus_class is_word name;
       (sp, r2) \<leftarrow> plus_class is_space r1;
       numeric_date r2
     })"

definition pattern_2 :: "string \<Rightarrow> ((string \<times> string \<times> string) \<times> string) option" where
  "pattern_2 name = first_match (numeric_date name)"

text \<open>
  Pattern 3, searched for anywhere in the name under \<open>re.IGNORECASE\<close>:
  \<open>(jan|...|dec)[a-z]*\s+(\d{1,2})(?:st|nd|rd|th)?(?:,)?\s+(\d{4})\<close>. The result is the
  groups \<open>month_name\<close>, \<open>day\<close> and \<open>year\<close>.
\<close>

definition month_map :: "(string \<times> nat) list" where
  "month_map =
     [(''jan'', 1), (''feb'', 2), (''mar'', 3), (''apr'', 4), (''may'', 5), (''jun'', 6),
      (''jul'', 7), (''aug'', 8), (''sep'', 9), (''oct'', 10), (''nov'', 11), (''dec'', 12)]"

definition month_name_date :: "string \<Rightarrow> (string \<times> string \<times> string) list" where
  "month_name_date s =
     do {
       (month_name, r1) \<leftarrow> alt_ci (map fst month_map) s;
       (letters, r2) \<leftarrow> star_class is_ascii_alpha r1;
       (sp1, r3) \<leftarrow> plus_class is_space r2;
       (day, r4) \<leftarrow> rep_class is_digit 1 2 r3;
       (suffix, r5) \<leftarrow> optional (alt_ci [''st'', ''nd'', ''rd'', ''th'']) r4;
       (comma, r6) \<leftarrow> optional (lit_ci '','') r5;
       (sp2, r7) \<leftarrow> plus_class is_space r6;
       (year, r8) \<leftarrow> rep_class is_digit 4 4 r7;
       [(month_name, day, year)]
     }"

fun pattern_3 :: "string \<Rightarrow> (string \<times> string \<times> string) option" where
  "pattern_3 [] = first_match (month_name_date [])"
| "pattern_3 (c # cs) =
     (case first_match (month_name_date (c # cs)) of
        Some m \<Rightarrow> Some m
      | None \<Rightarrow> pattern_3 cs)"

definition expand_year :: "string \<Rightarrow> string" where
  "expand_year year = (if length year = 2 then ''20'' @ year else year)"

text \<open>The function after its first statement: the three patterns tried on the cleaned name.\<close>

definition date_from_name :: "string \<Rightarrow> string option \<times> string" where
  "date_from_name name =
     (case pattern_1 name of
        Some ((month, day, year), rest) \<Rightarrow>
          (Some (expand_year year @ ''-'' @ format_02d (int_of_digits month) @ ''-''
                 @ format_02d (int_of_digits day)),
           strip (lstrip_char (CHR ''-'') (strip rest)))
      | None \<Rightarrow>
     (case pattern_2 name of
        Some ((month, day, year), rest) \<Rightarrow>
          (Some (expand_year year @ ''-'' @ format_02d (int_of_digits month) @ ''-''
                 @ format_02d (int_of_digits day)),
           strip (lstrip_char (CHR ''-'') (strip rest)))
      | None \<Rightarrow>
     (case pattern_3 name of
        Some (month_name, day, year) \<Rightarrow>
          (case map_of month_map (lower (take 3 month_name)) of
             Some month \<Rightarrow>
               (Some (year @ ''-'' @ format_02d month @ ''-'' @ format_02d (int_of_digits day)),
                name)
           | None \<Rightarrow> (None, name))
      | None \<Rightarrow> (None, name))))"

definition extract_date_from_filename :: "string \<Rightarrow> string option \<times> string" where
  "extract_date_from_filename filename = date_from_name (clean_name filename)"

subsection \<open>\<open>get_entry_details\<close>\<close>

text \<open>
  The loop over \<open>enumerate(lines)\<close>, on the lines from the current one on; the state is
  \<open>title_from_content\<close> and \<open>content_lines\<close>. The test \<open>i + 1 < len(lines)\<close> says that a
  next line exists, and \<open>lines[i+1]\<close> is that line. The \<open>continue\<close> of the source ends the
  iteration of the heading line, which has nothing left to do either way, so both
  branches of the inner test go on with the next line.
\<close>

fun scan_lines :: "string option \<Rightarrow> string list \<Rightarrow> string list \<Rightarrow> string option \<times> string list"
  where
  "scan_lines title_from_content content_lines [] = (title_from_content, content_lines)"
| "scan_lines title_from_content content_lines (line # rest) =
     (if startswith ''# '' line \<and> title_from_content = None then
        (if rest \<noteq> [] \<and> strip (hd rest) = []
         then scan_lines (Some (strip (drop 2 line))) content_lines rest
         else scan_lines (Some (strip (drop 2 line))) content_lines rest)
      else if startswith ''Created:'' line \<or> startswith ''Updated:'' line then
        scan_lines title_from_content content_lines rest
      else scan_lines title_from_content (content_lines @ [line]) rest)"

text \<open>\<open>title_from_content or title_from_filename or "Untitled Entry"\<close>\<close>

definition final_title :: "string option \<Rightarrow> string \<Rightarrow> string" where
  "final_title title_from_content title_from_filename =
     (case title_from_content of
        Some t \<Rightarrow> if t \<noteq> [] then t
                  else if title_from_filename \<noteq> [] then title_from_filename
                  else ''Untitled Entry''
      | None \<Rightarrow> if title_from_filename \<noteq> [] then title_from_filename else ''Untitled Entry'')"

text \<open>The arguments are \<open>md_file.name\<close> and the text that \<open>md_file.read_text\<close> returned.\<close>

definition get_entry_details :: "string \<Rightarrow> string \<Rightarrow> string option \<times> string \<times> string" where
  "get_entry_details filename content =
     (let (date_str, title_from_filename) = extract_date_from_filename filename;
          (title_from_content, content_lines) = scan_lines None [] (split_on (CHR 0x0A) content)
      in (date_str, final_title title_from_content title_from_filename,
          strip (join [CHR 0x0A] content_lines)))"

subsection \<open>\<open>sort_values\<close>\<close>

text \<open>
  \<open>df.sort_values(by='date')\<close> is called with the default \<open>kind='quicksort'\<close>. The column
  holds no \<open>NaT\<close> when it is sorted, and pandas then takes the rows in the order of
  \<open>argsort(kind='quicksort')\<close> on the \<open>datetime64\<close> values, which numpy computes with the
  function \<open>aquicksort_\<close> of \<open>npysort/quicksort.cpp\<close>: a quicksort with the median of three
  as the pivot on a range of more than 17 elements, an insertion sort on a shorter range,
  and a heapsort on a range that is taken from the stack with the depth limit used up.
  The C code permutes an array of indices and compares the values that they point to;
  here the rows themselves are permuted and \<open>key\<close> gives the value of a row.
\<close>

text \<open>\<open>INTP_SWAP(*i, *j)\<close>, and the same under \<open>if (less(v[*i], v[*j]))\<close>.\<close>

definition intp_swap :: "nat \<Rightarrow> nat \<Rightarrow> 'a list \<Rightarrow> 'a list" where
  "intp_swap i j a = a[i := a ! j, j := a ! i]"

definition swap_if_less :: "('a \<Rightarrow> 'k::linorder) \<Rightarrow> nat \<Rightarrow> nat \<Rightarrow> 'a list \<Rightarrow> 'a list" where
  "swap_if_less key i j a = (if key (a ! i) < key (a ! j) then intp_swap i j a else a)"

text \<open>
  The three tests that bring the median of \<open>*pl\<close>, \<open>*pm\<close> and \<open>*pr\<close> to \<open>pm\<close>; the range is
  the whole list, so \<open>pl\<close> is \<open>0\<close> and \<open>pr\<close> is the last index.
\<close>

definition median_of_three :: "('a \<Rightarrow> 'k::linorder) \<Rightarrow> 'a list \<Rightarrow> 'a list" where
  "median_of_three key a =
     (let pr = length a - 1; pm = pr div 2
      in swap_if_less key pm 0 (swap_if_less key pr pm (swap_if_less key pm 0 a)))"

text \<open>
  \<open>do { ++pi; } while (less(v[*pi], vp))\<close> and \<open>do { --pj; } while (less(vp, v[*pj]))\<close>, from
  the index after the first step. The C code does not test for the end of the range:
  the pivot at \<open>pr - 1\<close> and the element at \<open>pl\<close> stop the scans.
\<close>

function scan_up :: "('a \<Rightarrow> 'k::linorder) \<Rightarrow> 'k \<Rightarrow> 'a list \<Rightarrow> nat \<Rightarrow> nat" where
  "scan_up key vp a i = (if i < length a \<and> key (a ! i) < vp then scan_up key vp a (Suc i) else i)"
  by pat_completeness auto
termination
  by (relation "measure (\<lambda>(key, vp, a, i). length a - i)") auto

fun scan_down :: "('a \<Rightarrow> 'k::linorder) \<Rightarrow> 'k \<Rightarrow> 'a list \<Rightarrow> nat \<Rightarrow> nat" where
  "scan_down key vp a j = (if 0 < j \<and> vp < key (a ! j) then scan_down key vp a (j - 1) else j)"

declare scan_up.simps [simp del] scan_down.simps [simp del]

text \<open>The loop \<open>for (;;)\<close> of the partition: it ends when the scans meet.\<close>

function partition_loop ::
  "('a \<Rightarrow> 'k::linorder) \<Rightarrow> 'k \<Rightarrow> 'a list \<Rightarrow> nat \<Rightarrow> nat \<Rightarrow> 'a list \<times> nat" where
  "partition_loop key vp a p_i p_j =
     (let p_i' = scan_up key vp a (Suc p_i); p_j' = scan_down key vp a (p_j - 1)
      in if p_j' \<le> p_i' then (a, p_i') else partition_loop key vp (intp_swap p_i' p_j' a) p_i' p_j')"
  by pat_completeness auto

text \<open>
  The body of \<open>while ((pr - pl) > SMALL_QUICKSORT)\<close> up to the second
  \<open>INTP_SWAP\<close>: the list after the partition, and the index \<open>pi\<close> of the pivot (\<open>p_i\<close> here).
\<close>

definition quicksort_partition :: "('a \<Rightarrow> 'k::linorder) \<Rightarrow> 'a list \<Rightarrow> 'a list \<times> nat" where
  "quicksort_partition key xs =
     (let pr = length xs - 1; pm = pr div 2;
          a = median_of_three key xs;
          vp = key (a ! pm);
          (a', p_i) = partition_loop key vp (intp_swap pm (pr - 1) a) 0 (pr - 1)
      in (intp_swap p_i (pr - 1) a', p_i))"

text \<open>
  The insertion sort: \<open>insertion_step key x p\<close> moves \<open>x\<close> from the end of the sorted
  prefix \<open>p\<close> to the left, past the elements that are greater.
\<close>

function insertion_step :: "('a \<Rightarrow> 'k::linorder) \<Rightarrow> 'a \<Rightarrow> 'a list \<Rightarrow> 'a list" where
  "insertion_step key x p =
     (if p \<noteq> [] \<and> key x < key (last p) then insertion_step key x (butlast p) @ [last p] else p @ [x])"
  by pat_completeness auto
termination
  by (relation "measure (\<lambda>(key, x, p). length p)") auto

declare insertion_step.simps [simp del]

definition insertion_sort :: "('a \<Rightarrow> 'k::linorder) \<Rightarrow> 'a list \<Rightarrow> 'a list" where
  "insertion_sort key xs = foldl (\<lambda>p x. insertion_step key x p) [] xs"

text \<open>\<open>npy_get_msb\<close>: the number of times that the argument can be halved before it is zero, less one.\<close>

fun npy_get_msb :: "nat \<Rightarrow> int" where
  "npy_get_msb n = (if n < 2 then 0 else 1 + npy_get_msb (n div 2))"

declare npy_get_msb.simps [simp del]

text \<open>
  One range of the array. The outer loop of the C code takes a range from the stack and
  tests the depth limit (\<open>popped\<close> is false for a range that the inner loop goes on with,
  for which there is no test); the inner loop partitions the range while it has more than
  \<open>SMALL_QUICKSORT = 16\<close> elements after the first, puts the larger side on the stack with
  the depth \<open>--cdepth\<close> and goes on with the other side; the rest is sorted by insertion.
  The ranges are disjoint, so the order in which they are sorted does not matter.
  The heapsort \<open>aheapsort_\<close> is a parameter.
\<close>

function aquicksort_range ::
  "('a \<Rightarrow> 'k::linorder) \<Rightarrow> ('a list \<Rightarrow> 'a list) \<Rightarrow> bool \<Rightarrow> int \<Rightarrow> 'a list \<Rightarrow> 'a list" where
  "aquicksort_range key aheapsort popped cdepth xs =
     (if popped \<and> cdepth < 0 then aheapsort xs
      else if 16 < length xs - 1 then
        (let a = fst (quicksort_partition key xs); p_i = snd (quicksort_partition key xs);
             push_right = (p_i < length xs - 1 - p_i)
         in aquicksort_range key aheapsort (\<not> push_right) (cdepth - 1) (take p_i a) @ [a ! p_i]
            @ aquicksort_range key aheapsort push_right (cdepth - 1) (drop (Suc p_i) a))
      else insertion_sort key xs)"
  by pat_completeness auto

definition aquicksort :: "('a \<Rightarrow> 'k::linorder) \<Rightarrow> ('a list \<Rightarrow> 'a list) \<Rightarrow> 'a list \<Rightarrow> 'a list" where
  "aquicksort key aheapsort xs = aquicksort_range key aheapsort True (2 * npy_get_msb (length xs)) xs"

text \<open>
  What is assumed of the heapsort: the same elements, in ascending order of the key.
\<close>

definition sorts_by :: "('a \<Rightarrow> 'k::linorder) \<Rightarrow> ('a list \<Rightarrow> 'a list) \<Rightarrow> bool" where
  "sorts_by key f = (\<forall>xs. mset (f xs) = mset xs \<and> sorted (map key (f xs)))"

subsection \<open>\<open>convert_journal_files\<close>\<close>

datatype error = OSError | IntegrityError | ValueError | IndexError

text \<open>
  A file found by \<open>journal_path.glob('*.md')\<close>: its name, and what \<open>read_text\<close> gives, the
  text or the exception raised.
\<close>

record md_file =
  file_name :: string
  file_text :: "error + string"

text \<open>
  An entry, and a row of the data frame built from the entries. The date is the string
  from the file name at first and a parsed date (or \<open>NaT\<close>, here \<open>None\<close>) after
  \<open>pd.to_datetime\<close>.
\<close>

record 'd entry =
  date :: 'd
  title :: string
  content :: string

text \<open>
  The loop over \<open>md_files\<close>; the state is \<open>entries\<close>, \<open>processed_files\<close> and
  \<open>skipped_files\<close>. An exception caught by \<open>except Exception\<close> can only come from
  \<open>read_text\<close>: the rest of \<open>get_entry_details\<close> is total. A date string is never empty,
  so \<open>if date_str\<close> tests for \<open>None\<close>.
\<close>

fun convert_loop ::
  "string entry list \<times> nat \<times> nat \<Rightarrow> md_file list \<Rightarrow> string entry list \<times> nat \<times> nat" where
  "convert_loop st [] = st"
| "convert_loop (entries, processed_files, skipped_files) (md_file # md_files) =
     (case file_text md_file of
        Inl e \<Rightarrow> convert_loop (entries, processed_files, skipped_files + 1) md_files
      | Inr text \<Rightarrow>
          (case get_entry_details (file_name md_file) text of
             (Some date_str, t, c) \<Rightarrow>
               convert_loop
                 (entries @ [\<lparr>date = date_str, title = t, content = c\<rparr>],
                  processed_files + 1, skipped_files) md_files
           | (None, t, c) \<Rightarrow>
               convert_loop (entries, processed_files, skipped_files + 1) md_files))"

text \<open>
  \<open>df['date'] = pd.to_datetime(df['date'], errors='coerce')\<close> followed by
  \<open>df.dropna(subset=['date'])\<close>. The parser of pandas is not part of the program and is a
  parameter: \<open>to_datetime col s\<close> is the date that the string \<open>s\<close> gets as an element of the
  column \<open>col\<close>, or \<open>None\<close> where pandas gives \<open>NaT\<close>.
\<close>

definition coerce_dates ::
  "(string list \<Rightarrow> string \<Rightarrow> 'd option) \<Rightarrow> string entry list \<Rightarrow> 'd option entry list" where
  "coerce_dates to_datetime df =
     map (\<lambda>r. \<lparr>date = to_datetime (map date df) (date r), title = title r,
               content = content r\<rparr>) df"

definition dropna :: "'d option entry list \<Rightarrow> 'd entry list" where
  "dropna df =
     concat (map (\<lambda>r. case date r of
                         None \<Rightarrow> []
                       | Some d \<Rightarrow> [\<lparr>date = d, title = title r, content = content r\<rparr>]) df)"

text \<open>
  The directory is \<open>None\<close> when \<open>journal_path.exists()\<close> is false and the list of its
  \<open>*.md\<close> files, in the order of the enumeration, otherwise. The result is \<open>None\<close> where the
  function returns \<open>None\<close>, and the rows written to \<open>output_file\<close> where it returns
  \<open>output_file\<close>. Writing the file is taken to succeed. The first parameter is the
  heapsort that \<open>sort_values\<close> falls back on.
\<close>

definition convert_journal_files ::
  "('d::linorder entry list \<Rightarrow> 'd entry list) \<Rightarrow> (string list \<Rightarrow> string \<Rightarrow> 'd option)
   \<Rightarrow> md_file list option \<Rightarrow> 'd entry list option" where
  "convert_journal_files aheapsort to_datetime journal_dir =
     (case journal_dir of
        None \<Rightarrow> None
      | Some md_files \<Rightarrow>
          (let (entries, processed_files, skipped_files) = convert_loop ([], 0, 0) md_files
           in if entries = [] then None
              else Some (aquicksort date aheapsort (dropna (coerce_dates to_datetime entries)))))"

section \<open>Mood analysis (\<open>app/nlp_utils.py\<close>)\<close>

subsection \<open>\<open>categorize_mood\<close>\<close>

text \<open>
  The score is a float that is only compared with the four literals; it is modelled as
  the real number it denotes.
\<close>

definition categorize_mood :: "real \<Rightarrow> string" where
  "categorize_mood sentiment_score =
     (if sentiment_score \<le> - 0.5 then ''Very Negative''
      else if sentiment_score \<le> - 0.1 then ''Negative''
      else if sentiment_score \<le> 0.1 then ''Neutral''
      else if sentiment_score \<le> 0.5 then ''Positive''
      else ''Very Positive'')"

subsection \<open>\<open>extract_keywords\<close>\<close>

definition stop_words :: "string list" where
  "stop_words =
     [''about'', ''above'', ''after'', ''again'', ''against'', ''all'', ''am'', ''an'', ''and'',
      ''any'', ''are'', ''as'', ''at'',
      ''be'', ''because'', ''been'', ''before'', ''being'', ''below'', ''between'', ''both'',
      ''but'', ''by'',
      ''can'', ''could'', ''did'', ''do'', ''does'', ''doing'', ''down'', ''during'', ''each'',
      ''few'', ''for'', ''from'', ''further'', ''had'', ''has'', ''have'', ''having'', ''he'',
      ''her'', ''here'', ''hers'', ''herself'',
      ''him'', ''himself'', ''his'', ''how'', ''if'', ''in'', ''into'', ''is'', ''it'', ''its'',
      ''itself'',
      ''just'', ''me'', ''more'', ''most'', ''my'', ''myself'', ''no'', ''nor'', ''not'', ''now'',
      ''of'', ''off'', ''on'', ''once'',
      ''only'', ''or'', ''other'', ''our'', ''ours'', ''ourselves'', ''out'', ''over'', ''own'',
      ''same'', ''she'', ''should'', ''so'',
      ''some'', ''still'', ''such'', ''than'', ''that'', ''the'', ''their'', ''theirs'', ''them'',
      ''themselves'', ''then'', ''there'',
      ''these'', ''they'', ''this'', ''those'', ''through'', ''to'', ''too'', ''under'', ''until'',
      ''up'', ''very'', ''was'', ''we'',
      ''were'', ''what'', ''when'', ''where'', ''which'', ''while'', ''who'', ''whom'', ''why'',
      ''will'', ''with'', ''would'',
      ''you'', ''your'', ''yours'', ''yourself'', ''yourselves'', ''like'', ''im'', ''ive'',
      ''also'', ''get'', ''got'']"

text \<open>\<open>re.sub(r'[^a-zA-Z]', '', word)\<close>\<close>

definition strip_non_letters :: "string \<Rightarrow> string" where
  "strip_non_letters word = filter is_ascii_alpha word"

text \<open>The condition under which the loop appends the cleaned word.\<close>

definition keeps_word :: "int \<Rightarrow> string \<Rightarrow> bool" where
  "keeps_word min_length clean_word =
     (min_length \<le> int (length clean_word) \<and> clean_word \<notin> set stop_words
      \<and> isalpha clean_word)"

text \<open>The \<open>for word in words\<close> loop; the second argument is \<open>cleaned_words\<close>.\<close>

fun clean_loop :: "int \<Rightarrow> string list \<Rightarrow> string list \<Rightarrow> string list" where
  "clean_loop min_length cleaned_words [] = cleaned_words"
| "clean_loop min_length cleaned_words (word # words) =
     (let clean_word = strip_non_letters word
      in if keeps_word min_length clean_word
         then clean_loop min_length (cleaned_words @ [clean_word]) words
         else clean_loop min_length cleaned_words words)"

definition extract_keywords :: "string \<Rightarrow> int \<Rightarrow> int \<Rightarrow> string list" where
  "extract_keywords text min_length max_words =
     slice_to max_words (clean_loop min_length [] (split_ws (lower text)))"

subsection \<open>Analysed entries and \<open>get_mood_statistics\<close>\<close>

text \<open>
  A pandas \<open>Timestamp\<close>, to the second. \<open>str_timestamp\<close> is its \<open>str()\<close>, the ISO format
  with a space between date and time.
\<close>

record timestamp =
  year :: nat
  month :: nat
  day :: nat
  hour :: nat
  minute :: nat
  second :: nat

definition str_timestamp :: "timestamp \<Rightarrow> string" where
  "str_timestamp t =
     zero_pad 4 (decimal (year t)) @ ''-'' @ format_02d (month t) @ ''-'' @ format_02d (day t)
     @ '' '' @ format_02d (hour t) @ '':'' @ format_02d (minute t) @ '':''
     @ format_02d (second t)"

text \<open>
  The number of days from 1970-01-01 to a date of the proleptic Gregorian calendar, and
  the seconds from the epoch to a timestamp; timestamps are compared and subtracted as
  these numbers.
\<close>

definition days_from_civil :: "nat \<Rightarrow> nat \<Rightarrow> nat \<Rightarrow> int" where
  "days_from_civil y m d =
     (let y' = (if m \<le> 2 then int y - 1 else int y);
          era = y' div 400;
          yoe = y' - era * 400;
          doy = (153 * (if 2 < m then int m - 3 else int m + 9) + 2) div 5 + int d - 1;
          doe = yoe * 365 + yoe div 4 - yoe div 100 + doy
      in era * 146097 + doe - 719468)"

definition epoch_seconds :: "timestamp \<Rightarrow> int" where
  "epoch_seconds t =
     days_from_civil (year t) (month t) (day t) * 86400
     + int (hour t) * 3600 + int (minute t) * 60 + int (second t)"

text \<open>
  A row of the frame that \<open>analyze_journal_entries\<close> returns: the entry, its date
  converted by \<open>pd.to_datetime\<close>, and the added columns.
\<close>

record 'd analyzed_entry = "'d entry" +
  sentiment_score :: real
  subjectivity_score :: real
  mood_category :: string
  entry_keywords :: "string list"

text \<open>
  \<open>Series.mode()\<close>: the values that occur most often, in sorted order. Strings are
  compared as Python compares them, by code point and with a proper prefix first.
\<close>

definition max_count :: "'a list \<Rightarrow> nat" where
  "max_count xs = fold max (map (count_list xs) xs) 0"

definition mode :: "string list \<Rightarrow> string list" where
  "mode xs = sort (filter (\<lambda>v. count_list xs v = max_count xs) (remdups xs))"

text \<open>
  The frame is the list of its rows. A frame of analysed entries has its \<open>date\<close> column,
  and after the early return it has a row, so the test before the date range holds.
  \<open>.iloc[0]\<close> raises \<open>IndexError\<close> on an empty series. \<open>.days\<close> of a time difference is
  its number of whole days, rounded down.
\<close>

definition get_mood_statistics ::
  "timestamp analyzed_entry list \<Rightarrow> error + nat \<times> real \<times> string \<times> int" where
  "get_mood_statistics df =
     (if df = [] then Inr (0, 0, ''N/A'', 0)
      else
        (let total_entries = length df;
             avg_mood = sum_list (map sentiment_score df) / real (length df)
         in case mode (map mood_category df) of
              [] \<Rightarrow> Inl IndexError
            | most_common_mood # _ \<Rightarrow>
                (let stamps = map (\<lambda>r. epoch_seconds (date r)) df;
                     date_range = (fold max stamps (hd stamps) - fold min stamps (hd stamps))
                                  div 86400
                 in Inr (total_entries, avg_mood, most_common_mood, date_range))))"

section \<open>The entry store (\<open>app/db.py\<close>)\<close>

text \<open>
  A row of the table \<open>journal_entries\<close>; \<open>None\<close> is SQL's \<open>NULL\<close> in the columns that admit
  it. The columns \<open>id\<close> and \<open>created_at\<close> are selected by no query and are left out. The
  database is the list of its rows in the order of insertion.
\<close>

record stored_row =
  col_date :: string
  col_title :: "string option"
  col_content :: string
  col_sentiment_score :: "real option"
  col_mood_category :: "string option"
  col_keywords :: string

text \<open>
  A row of the frame given to \<open>insert_entries\<close>. The date is a string (a frame read from
  a CSV file) or a \<open>Timestamp\<close> (a frame that went through \<open>analyze_journal_entries\<close>). A
  cell read with \<open>row.get\<close> may be absent, when the frame has no such column, or hold
  \<open>None\<close>; the content may be \<open>None\<close>. Otherwise a cell holds a value of the type of
  its column.
\<close>

datatype date_value = DateStr string | DateTimestamp timestamp

datatype 'a cell = Absent | PyNone | Val 'a

record df_row =
  row_date :: date_value
  row_title :: "string cell"
  row_content :: "string option"
  row_sentiment_score :: "real cell"
  row_mood_category :: "string cell"
  row_keywords :: "string list cell"

text \<open>\<open>str(row['date'])\<close>\<close>

definition str_date :: "date_value \<Rightarrow> string" where
  "str_date d = (case d of DateStr s \<Rightarrow> s | DateTimestamp t \<Rightarrow> str_timestamp t)"

text \<open>\<open>row.get(key, default)\<close>, as the value bound to the SQL parameter.\<close>

definition get_or :: "'a cell \<Rightarrow> 'a \<Rightarrow> 'a option" where
  "get_or c dflt = (case c of Absent \<Rightarrow> Some dflt | PyNone \<Rightarrow> None | Val v \<Rightarrow> Some v)"

text \<open>
  \<open>','.join(row.get('keywords', [])) if row.get('keywords') else ''\<close>: the condition holds
  for a non-empty list only.
\<close>

definition keywords_str :: "string list cell \<Rightarrow> string" where
  "keywords_str c = (case c of Val ks \<Rightarrow> if ks \<noteq> [] then join '','' ks else [] | _ \<Rightarrow> [])"

text \<open>
  The loop of \<open>insert_entries\<close> over the rows of the frame, on the table as the open
  transaction sees it, with \<open>inserted_count\<close>. A \<open>None\<close> content violates \<open>NOT NULL\<close>.
\<close>

fun insert_loop ::
  "stored_row list \<Rightarrow> nat \<Rightarrow> df_row list \<Rightarrow> error + stored_row list \<times> nat" where
  "insert_loop table inserted_count [] = Inr (table, inserted_count)"
| "insert_loop table inserted_count (row # rows) =
     (case row_content row of
        None \<Rightarrow> Inl IntegrityError
      | Some c \<Rightarrow>
          insert_loop
            (table @ [\<lparr>col_date = str_date (row_date row),
                       col_title = get_or (row_title row) [],
                       col_content = c,
                       col_sentiment_score = get_or (row_sentiment_score row) 0,
                       col_mood_category = get_or (row_mood_category row) ''Neutral'',
                       col_keywords = keywords_str (row_keywords row)\<rparr>])
            (inserted_count + 1) rows)"

text \<open>
  The result is the count, or the error raised again after the rollback, and the
  database afterwards: with the new rows after the commit, unchanged after the rollback.
\<close>

definition insert_entries :: "stored_row list \<Rightarrow> df_row list \<Rightarrow> (error + nat) \<times> stored_row list"
  where
  "insert_entries db df =
     (case insert_loop db 0 df of
        Inr (table, inserted_count) \<Rightarrow> (Inr inserted_count, table)
      | Inl e \<Rightarrow> (Inl e, db))"

text \<open>
  A row of the frame that a query returns. The steps after \<open>pd.read_sql_query\<close> are the
  same in every query: the date column goes through \<open>pd.to_datetime\<close>, which raises on
  a string it cannot parse, and the keywords are split at the commas.
\<close>

record 'd fetched_row =
  out_date :: 'd
  out_title :: "string option"
  out_content :: string
  out_sentiment_score :: "real option"
  out_mood_category :: "string option"
  out_keywords :: "string list"

fun read_rows :: "(string \<Rightarrow> 'd option) \<Rightarrow> stored_row list \<Rightarrow> error + 'd fetched_row list" where
  "read_rows parse [] = Inr []"
| "read_rows parse (r # rs) =
     (case parse (col_date r) of
        None \<Rightarrow> Inl ValueError
      | Some d \<Rightarrow>
          (case read_rows parse rs of
             Inl e \<Rightarrow> Inl e
           | Inr out \<Rightarrow>
               Inr (\<lparr>out_date = d,
                     out_title = col_title r,
                     out_content = col_content r,
                     out_sentiment_score = col_sentiment_score r,
                     out_mood_category = col_mood_category r,
                     out_keywords =
                       (if col_keywords r \<noteq> [] then split_on (CHR '','') (col_keywords r)
                        else [])\<rparr> # out)))"

definition read_frame ::
  "(string list \<Rightarrow> string \<Rightarrow> 'd option) \<Rightarrow> stored_row list \<Rightarrow> error + 'd fetched_row list" where
  "read_frame to_datetime rows = read_rows (to_datetime (map col_date rows)) rows"

text \<open>
  \<open>ORDER BY date DESC\<close> compares the stored texts and leaves the order of rows with equal
  dates to the database engine. The ordering is a parameter, and \<open>orders_by_desc key f\<close>
  says that \<open>f\<close> returns its rows in descending order of the key.
\<close>

definition orders_by_desc :: "('a \<Rightarrow> 'k::linorder) \<Rightarrow> ('a list \<Rightarrow> 'a list) \<Rightarrow> bool" where
  "orders_by_desc key f = (\<forall>xs. mset (f xs) = mset xs \<and> sorted (rev (map key (f xs))))"

definition get_all_entries ::
  "(stored_row list \<Rightarrow> stored_row list) \<Rightarrow> (string list \<Rightarrow> string \<Rightarrow> 'd option)
   \<Rightarrow> stored_row list \<Rightarrow> error + 'd fetched_row list" where
  "get_all_entries order_by to_datetime db = read_frame to_datetime (order_by db)"

text \<open>\<open>WHERE date BETWEEN ? AND ?\<close> compares texts, byte by byte.\<close>

definition get_entries_by_date_range ::
  "(stored_row list \<Rightarrow> stored_row list) \<Rightarrow> (string list \<Rightarrow> string \<Rightarrow> 'd option)
   \<Rightarrow> stored_row list \<Rightarrow> string \<Rightarrow> string \<Rightarrow> error + 'd fetched_row list" where
  "get_entries_by_date_range order_by to_datetime db start_date end_date =
     read_frame to_datetime
       (order_by (filter (\<lambda>r. start_date \<le> col_date r \<and> col_date r \<le> end_date) db))"

section \<open>Reference definitions and instances of the parameters\<close>

text \<open>
  The tie-break of the mode as the specification words it: among the categories that
  share the maximum count, the one met first in the collection.
\<close>

definition first_encountered_mode :: "string list \<Rightarrow> string option" where
  "first_encountered_mode xs = find (\<lambda>v. count_list xs v = max_count xs) xs"

text \<open>
  Instances of the date parser, used where a theorem is applied to concrete data. They
  accept the ISO forms only, \<open>YYYY-MM-DD\<close> and \<open>YYYY-MM-DD HH:MM:SS\<close> of a date that
  exists; on these strings pandas gives the same date, and it gives \<open>NaT\<close> for a month
  or day out of range. \<open>strict_iso_date\<close> returns the date as the number \<open>YYYYMMDD\<close>.
\<close>

definition is_leap :: "nat \<Rightarrow> bool" where
  "is_leap y = (if y mod 100 = 0 then y mod 400 = 0 else y mod 4 = 0)"

definition days_in_month :: "nat \<Rightarrow> nat \<Rightarrow> nat" where
  "days_in_month y m =
     (if m = 2 then (if is_leap y then 29 else 28)
      else if m = 4 \<or> m = 6 \<or> m = 9 \<or> m = 11 then 30 else 31)"

definition valid_date :: "nat \<Rightarrow> nat \<Rightarrow> nat \<Rightarrow> bool" where
  "valid_date y m d = (1 \<le> m \<and> m \<le> 12 \<and> 1 \<le> d \<and> d \<le> days_in_month y m)"

definition iso_date_fields :: "string \<Rightarrow> (nat \<times> nat \<times> nat) option" where
  "iso_date_fields s =
     (let y = int_of_digits (take 4 s); m = int_of_digits (take 2 (drop 5 s));
          d = int_of_digits (take 2 (drop 8 s))
      in if length s = 10 \<and> list_all is_digit (take 4 s) \<and> s ! 4 = CHR ''-''
            \<and> list_all is_digit (take 2 (drop 5 s)) \<and> s ! 7 = CHR ''-''
            \<and> list_all is_digit (drop 8 s) \<and> valid_date y m d
         then Some (y, m, d) else None)"

definition strict_iso_date :: "string \<Rightarrow> int option" where
  "strict_iso_date s =
     (case iso_date_fields s of
        None \<Rightarrow> None
      | Some (y, m, d) \<Rightarrow> Some (10000 * int y + 100 * int m + int d))"

definition iso_time_fields :: "string \<Rightarrow> (nat \<times> nat \<times> nat) option" where
  "iso_time_fields s =
     (let h = int_of_digits (take 2 s); m = int_of_digits (take 2 (drop 3 s));
          sec = int_of_digits (take 2 (drop 6 s))
      in if length s = 8 \<and> list_all is_digit (take 2 s) \<and> s ! 2 = CHR '':''
            \<and> list_all is_digit (take 2 (drop 3 s)) \<and> s ! 5 = CHR '':''
            \<and> list_all is_digit (drop 6 s) \<and> h < 24 \<and> m < 60 \<and> sec < 60
         then Some (h, m, sec) else None)"

definition parse_timestamp :: "string \<Rightarrow> timestamp option" where
  "parse_timestamp s =
     (case iso_date_fields (take 10 s) of
        None \<Rightarrow> None
      | Some (y, m, d) \<Rightarrow>
          if length s = 10
          then Some \<lparr>year = y, month = m, day = d, hour = 0, minute = 0, second = 0\<rparr>
          else if length s = 19 \<and> s ! 10 = CHR '' '' then
            (case iso_time_fields (drop 11 s) of
               None \<Rightarrow> None
             | Some (h, mi, sec) \<Rightarrow>
                 Some \<lparr>year = y, month = m, day = d, hour = h, minute = mi, second = sec\<rparr>)
          else None)"

text \<open>
  The invariant of the partition loop, and what holds of its result: the elements up to
  \<open>p_i\<close> are not above the pivot value and those from \<open>p_j\<close> on are not below it.
\<close>

definition partition_inv :: "('a \<Rightarrow> 'k::linorder) \<Rightarrow> 'k \<Rightarrow> nat \<Rightarrow> 'a list \<Rightarrow> nat \<Rightarrow> nat \<Rightarrow> bool" where
  "partition_inv key vp n a p_i p_j =
     (length a = n \<and> p_i < p_j \<and> p_j + 1 < n
      \<and> (\<forall>k \<le> p_i. key (a ! k) \<le> vp)
      \<and> (\<forall>k. p_j \<le> k \<and> k < n \<longrightarrow> vp \<le> key (a ! k)))"

definition partition_post :: "('a \<Rightarrow> 'k::linorder) \<Rightarrow> 'k \<Rightarrow> nat \<Rightarrow> 'a list \<Rightarrow> 'a list \<Rightarrow> nat \<Rightarrow> bool" where
  "partition_post key vp n a a' p =
     (length a' = n \<and> mset a' = mset a \<and> 0 < p \<and> p + 1 < n
      \<and> (\<forall>k < p. key (a' ! k) \<le> vp)
      \<and> (\<forall>k. p \<le> k \<and> k < n \<longrightarrow> vp \<le> key (a' ! k))
      \<and> a' ! (n - 2) = a ! (n - 2) \<and> a' ! (n - 1) = a ! (n - 1))"

text \<open>An instance of \<open>ORDER BY date DESC\<close>.\<close>

definition order_by_date_desc :: "stored_row list \<Rightarrow> stored_row list" where
  "order_by_date_desc xs = rev (sort_key col_date xs)"

text \<open>The row of the analysed frame that \<open>insert_entries\<close> reads for an entry.\<close>

definition row_of_entry :: "timestamp analyzed_entry \<Rightarrow> df_row" where
  "row_of_entry e =
     \<lparr>row_date = DateTimestamp (date e), row_title = Val (title e),
      row_content = Some (content e), row_sentiment_score = Val (sentiment_score e),
      row_mood_category = Val (mood_category e), row_keywords = Val (entry_keywords e)\<rparr>"

text \<open>Sample data for the concrete instances of the theorems.\<close>

definition sample_dir :: "md_file list" where
  "sample_dir =
     [\<lparr>file_name = ''1 10 25 First.md'', file_text = Inr ''one''\<rparr>,
      \<lparr>file_name = ''notes.md'', file_text = Inr ''two''\<rparr>,
      \<lparr>file_name = ''Friday 1 9 25 Lost.md'', file_text = Inl OSError\<rparr>,
      \<lparr>file_name = ''Monday 12 31 24 Eve.md'', file_text = Inr ''# New year''\<rparr>]"

text \<open>Eighteen files of one day, named \<open>1 10 25 A.md\<close> to \<open>1 10 25 R.md\<close>.\<close>

definition same_day_dir :: "md_file list" where
  "same_day_dir =
     map (\<lambda>t. \<lparr>file_name = ''1 10 25 '' @ t @ ''.md'', file_text = Inr t\<rparr>)
       [''A'', ''B'', ''C'', ''D'', ''E'', ''F'', ''G'', ''H'', ''I'',
        ''J'', ''K'', ''L'', ''M'', ''N'', ''O'', ''P'', ''Q'', ''R'']"

definition sample_date :: timestamp where
  "sample_date = \<lparr>year = 2025, month = 1, day = 10, hour = 0, minute = 0, second = 0\<rparr>"

definition later_date :: timestamp where
  "later_date = \<lparr>year = 2025, month = 1, day = 12, hour = 0, minute = 0, second = 0\<rparr>"

definition sample_entry :: "timestamp analyzed_entry" where
  "sample_entry =
     \<lparr>date = sample_date,
      title = ''Morning thoughts'', content = ''Today was wonderful'',
      sentiment_score = 1, subjectivity_score = 1,
      mood_category = ''Very Positive'', entry_keywords = [''today'', ''wonderful'']\<rparr>"

definition sample_stored :: stored_row where
  "sample_stored =
     \<lparr>col_date = ''2025-01-10 00:00:00'', col_title = Some ''Morning thoughts'',
      col_content = ''Today was wonderful'', col_sentiment_score = Some 1,
      col_mood_category = Some ''Very Positive'', col_keywords = ''today,wonderful''\<rparr>"

definition mood_frame :: "timestamp analyzed_entry list" where
  "mood_frame =
     [\<lparr>date = sample_date, title = ''a'', content = ''good day'',
       sentiment_score = 0.3, subjectivity_score = 0.5,
       mood_category = ''Positive'', entry_keywords = [''good'']\<rparr>,
      \<lparr>date = later_date, title = ''b'', content = ''sad day'',
       sentiment_score = - 0.3, subjectivity_score = 0.5,
       mood_category = ''Negative'', entry_keywords = []\<rparr>]"

section \<open>Properties of the mood analysis\<close>

text \<open>
  Claim C6. \<open>categorize_mood\<close> is total, and its boundaries are closed on the upper side:
  a polarity of at most \<open>-0.5\<close> is Very Negative, one in \<open>(-0.5, -0.1]\<close> is Negative, one in
  \<open>(-0.1, 0.1]\<close> is Neutral, one in \<open>(0.1, 0.5]\<close> is Positive, and one above \<open>0.5\<close> is Very
  Positive.
\<close>

theorem categorize_mood_boundaries:
  "(p \<le> - 0.5 \<longrightarrow> categorize_mood p = ''Very Negative'')
   \<and> (- 0.5 < p \<and> p \<le> - 0.1 \<longrightarrow> categorize_mood p = ''Negative'')
   \<and> (- 0.1 < p \<and> p \<le> 0.1 \<longrightarrow> categorize_mood p = ''Neutral'')
   \<and> (0.1 < p \<and> p \<le> 0.5 \<longrightarrow> categorize_mood p = ''Positive'')
   \<and> (0.5 < p \<longrightarrow> categorize_mood p = ''Very Positive'')
   \<and> categorize_mood p \<in>
       {''Very Negative'', ''Negative'', ''Neutral'', ''Positive'', ''Very Positive''}"
  by (simp add: categorize_mood_def)

theorem categorize_mood_boundaries_witness:
  "categorize_mood (- 0.5) = ''Very Negative''
   \<and> categorize_mood (- 0.1) = ''Negative''
   \<and> categorize_mood 0.1 = ''Neutral''
   \<and> categorize_mood 0.5 = ''Positive''
   \<and> categorize_mood 0.50001 = ''Very Positive''"
  using categorize_mood_boundaries [of "- 0.5"] categorize_mood_boundaries [of "- 0.1"]
    categorize_mood_boundaries [of "0.1"] categorize_mood_boundaries [of "0.5"]
    categorize_mood_boundaries [of "0.50001"]
  by simp


lemma clean_loop_filter:
  "clean_loop min_length acc ws =
     acc @ filter (keeps_word min_length) (map strip_non_letters ws)"
  by (induction ws arbitrary: acc) (auto simp: Let_def)

text \<open>
  Claim C7, as the code has it. Every token returned by \<open>extract_keywords\<close> has at
  least \<open>min_length\<close> characters and is no stop word, and the tokens are an initial
  segment of the surviving tokens of the text, in the order of the text. For a
  non-negative \<open>max_words\<close> there are at most \<open>max_words\<close> tokens, and they are the first
  \<open>max_words\<close> surviving tokens.
\<close>

theorem extract_keywords_first_survivors:
  "(\<forall>t \<in> set (extract_keywords text min_length max_words).
      min_length \<le> int (length t) \<and> t \<notin> set stop_words)
   \<and> prefix (extract_keywords text min_length max_words)
        (filter (keeps_word min_length) (map strip_non_letters (split_ws (lower text))))
   \<and> (0 \<le> max_words \<longrightarrow>
        int (length (extract_keywords text min_length max_words)) \<le> max_words
        \<and> extract_keywords text min_length max_words =
            take (nat max_words)
              (filter (keeps_word min_length)
                 (map strip_non_letters (split_ws (lower text)))))"
proof -
  let ?survivors =
    "filter (keeps_word min_length) (map strip_non_letters (split_ws (lower text)))"
  let ?r = "extract_keywords text min_length max_words"
  have r: "?r = slice_to max_words ?survivors"
    by (simp add: extract_keywords_def clean_loop_filter)
  have p: "prefix ?r ?survivors"
    unfolding r slice_to_def by (simp add: take_is_prefix)
  then have "set ?r \<subseteq> set ?survivors"
    by (rule set_mono_prefix)
  then have 1: "\<forall>t \<in> set ?r. min_length \<le> int (length t) \<and> t \<notin> set stop_words"
    by (auto simp: keeps_word_def)
  have 2: "0 \<le> max_words \<longrightarrow>
             int (length ?r) \<le> max_words \<and> ?r = take (nat max_words) ?survivors"
  proof
    assume "0 \<le> max_words"
    then have "?r = take (nat max_words) ?survivors"
      unfolding r slice_to_def by simp
    moreover have "int (length (take (nat max_words) ?survivors)) \<le> max_words"
      using \<open>0 \<le> max_words\<close> by simp
    ultimately show "int (length ?r) \<le> max_words \<and> ?r = take (nat max_words) ?survivors"
      by simp
  qed
  show ?thesis
    using 1 p 2 by (intro conjI)
qed

theorem extract_keywords_first_survivors_witness:
  "(0::int) \<le> 2
   \<and> extract_keywords ''Alpha, the beta gamma!'' 4 2 = [''alpha'', ''beta'']
   \<and> int (length (extract_keywords ''Alpha, the beta gamma!'' 4 2)) \<le> 2
   \<and> prefix (extract_keywords ''Alpha, the beta gamma!'' 4 2)
        (filter (keeps_word 4)
           (map strip_non_letters (split_ws (lower ''Alpha, the beta gamma!''))))"
proof -
  have h: "(0::int) \<le> 2"
    by simp
  have v: "extract_keywords ''Alpha, the beta gamma!'' 4 2 = [''alpha'', ''beta'']"
    by code_simp
  note t = extract_keywords_first_survivors [of "''Alpha, the beta gamma!''" 4 2]
  have "int (length (extract_keywords ''Alpha, the beta gamma!'' 4 2)) \<le> 2"
    using t h by blast
  then show ?thesis
    using h v t [THEN conjunct2, THEN conjunct1] by (intro conjI)
qed

text \<open>
  Claim C7 as stated, for every \<open>max_words\<close>, fails for a negative one: \<open>xs[:-1]\<close> is all
  of \<open>xs\<close> but its last element, which is more than \<open>-1\<close> tokens.
\<close>

theorem extract_keywords_negative_max_words:
  "extract_keywords ''alpha beta gamma'' 4 (- 1) = [''alpha'', ''beta'']
   \<and> \<not> int (length (extract_keywords ''alpha beta gamma'' 4 (- 1))) \<le> - 1"
proof -
  have v: "extract_keywords ''alpha beta gamma'' 4 (- 1) = [''alpha'', ''beta'']"
    by code_simp
  show ?thesis
    by (simp add: v)
qed

section \<open>Properties of the journal conversion\<close>

text \<open>
  A line of whitespace only is neither a heading nor a metadata line, so the blank line
  after the first heading is appended to the content lines like any other line.
\<close>

lemma strip_empty_all_space:
  assumes "strip b = []"
  shows "\<forall>c \<in> set b. is_space c"
proof -
  have "dropWhile is_space (rev (dropWhile is_space b)) = []"
    using assms by (simp add: strip_def rstrip_def lstrip_def)
  then have "\<forall>c \<in> set (dropWhile is_space b). is_space c"
    by (simp add: dropWhile_eq_Nil_conv)
  then have "dropWhile is_space b = []"
    using hd_dropWhile [of is_space b] by (cases "dropWhile is_space b") auto
  then show ?thesis
    by (simp add: dropWhile_eq_Nil_conv)
qed

lemma blank_line_is_content:
  assumes "strip b = []"
  shows "\<not> startswith ''# '' b \<and> \<not> startswith ''Created:'' b \<and> \<not> startswith ''Updated:'' b"
proof (cases b)
  case Nil
  then show ?thesis by (simp add: startswith_def)
next
  case (Cons c cs)
  then have "is_space c"
    using strip_empty_all_space [OF assms] by simp
  then have "c \<noteq> CHR ''#'' \<and> c \<noteq> CHR ''C'' \<and> c \<noteq> CHR ''U''"
    by (auto simp: is_space_def)
  then show ?thesis
    using Cons by (simp add: startswith_def)
qed

lemma scan_lines_keeps_blank_line:
  assumes "startswith ''# '' h" and "strip b = []"
  shows "scan_lines None content_lines (h # b # rest)
           = scan_lines (Some (strip (drop 2 h))) (content_lines @ [b]) rest"
  using assms blank_line_is_content [OF assms(2)] by simp

text \<open>
  Claim C9. The blank line that follows the heading is meant to be dropped from the
  content. In the document \<open>intro / # Title / (blank) / body\<close> it is kept: the content is
  \<open>intro\<close>, a blank line, \<open>body\<close>.
\<close>

theorem get_entry_details_keeps_blank_line:
  "get_entry_details ''2 27 2022.md'' ''intro\<newline># Title\<newline>\<newline>body''
     = (Some ''2022-02-27'', ''Title'', ''intro\<newline>\<newline>body'')"
  by code_simp

subsection \<open>Cleaning the file name\<close>

lemma rfind_less: "rfind c s < int (length s)"
proof -
  have "length (dropWhile (\<lambda>x. x \<noteq> c) (rev s)) \<le> length s"
    using length_dropWhile_le [of "\<lambda>x. x \<noteq> c" "rev s"] by simp
  then show ?thesis
    by (auto simp: rfind_def split: list.splits)
qed

lemma rfind_append_absent: "c \<notin> set ys \<Longrightarrow> rfind c (xs @ ys) = rfind c xs"
  by (simp add: rfind_def dropWhile_append)

lemma rfind_last_occurrence: "c \<notin> set ys \<Longrightarrow> rfind c (xs @ c # ys) = int (length xs)"
  by (simp add: rfind_def dropWhile_append)

lemma hex_lower_plain:
  "is_hex_lower x \<Longrightarrow> x \<noteq> CHR ''.'' \<and> x \<noteq> CHR ''/'' \<and> x \<noteq> CHR 0x0A \<and> \<not> is_space x"
  by (auto simp: is_hex_lower_def is_digit_def is_space_def Let_def)

lemma splitext_root_extension:
  assumes "CHR ''.'' \<notin> set ext" "CHR ''/'' \<notin> set ext" "x \<noteq> CHR ''.''" "x \<noteq> CHR ''/''"
  shows "splitext_root (pre @ x # CHR ''.'' # ext) = pre @ [x]"
proof -
  let ?p = "pre @ x # CHR ''.'' # ext"
  have dot: "rfind (CHR ''.'') ?p = int (length pre) + 1"
    using rfind_last_occurrence [of "CHR ''.''" ext "pre @ [x]"] assms(1) by simp
  have "rfind (CHR ''/'') ?p = rfind (CHR ''/'') pre"
    using rfind_append_absent [of "CHR ''/''" "x # CHR ''.'' # ext" pre] assms(2,4) by simp
  then have sep: "rfind (CHR ''/'') ?p < int (length pre)"
    using rfind_less [of "CHR ''/''" pre] by simp
  have "x \<in> set (drop (nat (rfind (CHR ''/'') ?p + 1)) (pre @ [x]))"
    using sep by simp
  then have "list_ex (\<lambda>c. c \<noteq> CHR ''.'') (drop (nat (rfind (CHR ''/'') ?p + 1)) (pre @ [x]))"
    using assms(3) by (auto simp: list_ex_iff)
  then show ?thesis
    using dot sep by (simp add: splitext_root_def Let_def nat_add_distrib)
qed

lemma sub_hash_suffix:
  assumes "is_space c" "length h = 32" "list_all is_hex_lower h"
  shows "sub_hash (stem @ c # h) = stem"
proof (induction stem)
  case Nil
  then show ?case
    using assms by (simp add: hash_to_end_def)
next
  case (Cons x xs)
  have "\<not> hash_to_end (xs @ c # h)"
  proof (cases xs)
    case Nil
    have "h ! 31 \<in> set h"
      using assms(2) by simp
    then have "is_hex_lower (h ! 31)"
      using assms(3) by (simp add: list_all_iff)
    then have "h ! 31 \<noteq> CHR 0x0A"
      using hex_lower_plain by blast
    then show ?thesis
      using Nil assms(2) by (simp add: hash_to_end_def)
  next
    case (Cons y ys)
    then show ?thesis
      using assms(2) by (simp add: hash_to_end_def)
  qed
  then show ?case
    using Cons.IH by simp
qed

text \<open>
  Claim C8, as the code has it. When the name ends with a whitespace character, 32
  lower-case hex digits and an extension, the extension, the digits and the whitespace
  character are removed (and the rest stripped) before any date pattern is tried.
\<close>

theorem clean_name_strips_spaced_hash:
  assumes "is_space c" "length h = 32" "list_all is_hex_lower h"
    and "CHR ''.'' \<notin> set ext" "CHR ''/'' \<notin> set ext"
  shows "clean_name (stem @ c # h @ CHR ''.'' # ext) = strip stem
         \<and> extract_date_from_filename (stem @ c # h @ CHR ''.'' # ext)
             = date_from_name (strip stem)"
proof -
  obtain h' x where h: "h = h' @ [x]"
    using assms(2) by (cases h rule: rev_cases) auto
  have "is_hex_lower x"
    using assms(3) h by simp
  then have x: "x \<noteq> CHR ''.''" "x \<noteq> CHR ''/''"
    using hex_lower_plain by blast+
  have "splitext_root ((stem @ c # h') @ x # CHR ''.'' # ext) = (stem @ c # h') @ [x]"
    using assms(4,5) x by (rule splitext_root_extension)
  then have "splitext_root (stem @ c # h @ CHR ''.'' # ext) = stem @ c # h"
    using h by simp
  then have "clean_name (stem @ c # h @ CHR ''.'' # ext) = strip stem"
    using sub_hash_suffix [OF assms(1,2,3)] by (simp add: clean_name_def)
  then show ?thesis
    by (simp add: extract_date_from_filename_def)
qed

theorem clean_name_strips_spaced_hash_witness:
  "is_space (CHR '' '') \<and> length ''0123456789abcdef0123456789abcdef'' = 32
   \<and> list_all is_hex_lower ''0123456789abcdef0123456789abcdef''
   \<and> CHR ''.'' \<notin> set ''md'' \<and> CHR ''/'' \<notin> set ''md''
   \<and> clean_name (''2 27 2022 Notes '' @ CHR '' '' # ''0123456789abcdef0123456789abcdef''
                  @ CHR ''.'' # ''md'') = ''2 27 2022 Notes''
   \<and> extract_date_from_filename
        (''2 27 2022 Notes '' @ CHR '' '' # ''0123456789abcdef0123456789abcdef''
         @ CHR ''.'' # ''md'') = (Some ''2022-02-27'', ''Notes'')"
proof -
  have a: "is_space (CHR '' '')"
    by code_simp
  have b: "length ''0123456789abcdef0123456789abcdef'' = 32"
    by simp
  have c: "list_all is_hex_lower ''0123456789abcdef0123456789abcdef''"
    by code_simp
  have d: "CHR ''.'' \<notin> set ''md''" "CHR ''/'' \<notin> set ''md''"
    by simp_all
  have e: "strip ''2 27 2022 Notes '' = ''2 27 2022 Notes''"
    by code_simp
  have f: "date_from_name ''2 27 2022 Notes'' = (Some ''2022-02-27'', ''Notes'')"
    by code_simp
  show ?thesis
    using a b c d clean_name_strips_spaced_hash [OF a b c d, of "''2 27 2022 Notes ''"]
    by (simp only: e f simp_thms)
qed

text \<open>
  Claim C8 as stated fails for a suffix joined with a hyphen: only the extension is
  removed, and the digits stay in the name and in the title.
\<close>

theorem clean_name_keeps_hyphenated_hash:
  "clean_name ''2 27 2022 Notes-0123456789abcdef0123456789abcdef.md''
     = ''2 27 2022 Notes-0123456789abcdef0123456789abcdef''
   \<and> extract_date_from_filename ''2 27 2022 Notes-0123456789abcdef0123456789abcdef.md''
       = (Some ''2022-02-27'', ''Notes-0123456789abcdef0123456789abcdef'')"
  by code_simp

subsection \<open>Sorting the rows\<close>

text \<open>The scans move in one direction, so the partition loop ends.\<close>

lemma scan_up_ge: "i \<le> scan_up key vp a i"
proof (induction key vp a i rule: scan_up.induct)
  case (1 key vp a i)
  then show ?case
    by (subst scan_up.simps) (auto simp: Suc_leD)
qed

lemma scan_down_le: "scan_down key vp a j \<le> j"
proof (induction key vp a j rule: scan_down.induct)
  case (1 key vp a j)
  then show ?case
    by (subst scan_down.simps) (auto intro: le_trans)
qed

termination partition_loop
proof (relation "measure (\<lambda>(key, vp, a, p_i, p_j). p_j - p_i)", goal_cases)
  case 1
  then show ?case by simp
next
  case (2 key vp a p_i p_j p_i' p_j')
  have "Suc p_i \<le> p_i'" using 2(1) scan_up_ge by metis
  moreover have "p_j' \<le> p_j - 1" using 2(2) scan_down_le by metis
  ultimately show ?case using 2(3) by simp
qed

declare partition_loop.simps [simp del]

lemma intp_swap_length [simp]: "length (intp_swap i j a) = length a"
  by (simp add: intp_swap_def)

lemma intp_swap_mset: "i < length a \<Longrightarrow> j < length a \<Longrightarrow> mset (intp_swap i j a) = mset a"
  by (simp add: intp_swap_def mset_swap)

lemma intp_swap_nth:
  "i < length a \<Longrightarrow> j < length a \<Longrightarrow> k < length a
   \<Longrightarrow> intp_swap i j a ! k = (if k = j then a ! i else if k = i then a ! j else a ! k)"
  by (simp add: intp_swap_def nth_list_update)

lemma scan_up_below: "i \<le> k \<Longrightarrow> k < scan_up key vp a i \<Longrightarrow> key (a ! k) < vp"
proof (induction key vp a i rule: scan_up.induct)
  case (1 key vp a i)
  show ?case
  proof (cases "i < length a \<and> key (a ! i) < vp")
    case True
    then have s: "scan_up key vp a i = scan_up key vp a (Suc i)"
      by (subst scan_up.simps) simp
    show ?thesis
    proof (cases "k = i")
      case True
      then show ?thesis using \<open>i < length a \<and> key (a ! i) < vp\<close> by simp
    next
      case False
      then have "Suc i \<le> k" using "1.prems"(1) by simp
      then show ?thesis using "1.IH" True "1.prems"(2) s by simp
    qed
  next
    case False
    then have "scan_up key vp a i = i"
      by (subst scan_up.simps) auto
    then show ?thesis using "1.prems" by simp
  qed
qed

lemma scan_up_stop:
  "scan_up key vp a i < length a \<Longrightarrow> \<not> key (a ! scan_up key vp a i) < vp"
proof (induction key vp a i rule: scan_up.induct)
  case (1 key vp a i)
  show ?case
  proof (cases "i < length a \<and> key (a ! i) < vp")
    case True
    then have s: "scan_up key vp a i = scan_up key vp a (Suc i)"
      by (subst scan_up.simps) simp
    then show ?thesis using "1.IH" True "1.prems" by simp
  next
    case False
    then have s: "scan_up key vp a i = i"
      by (subst scan_up.simps) auto
    then show ?thesis using False "1.prems" by simp
  qed
qed

lemma scan_up_bound:
  assumes "i \<le> m" and "\<not> key (a ! m) < vp"
  shows "scan_up key vp a i \<le> m"
proof (rule ccontr)
  assume "\<not> scan_up key vp a i \<le> m"
  then have "m < scan_up key vp a i" by simp
  with assms(1) have "key (a ! m) < vp" by (rule scan_up_below)
  then show False using assms(2) by simp
qed

lemma scan_down_above: "scan_down key vp a j < k \<Longrightarrow> k \<le> j \<Longrightarrow> vp < key (a ! k)"
proof (induction key vp a j rule: scan_down.induct)
  case (1 key vp a j)
  show ?case
  proof (cases "0 < j \<and> vp < key (a ! j)")
    case True
    then have s: "scan_down key vp a j = scan_down key vp a (j - 1)"
      by (subst scan_down.simps) simp
    show ?thesis
    proof (cases "k = j")
      case True
      then show ?thesis using \<open>0 < j \<and> vp < key (a ! j)\<close> by simp
    next
      case False
      then have "k \<le> j - 1" using "1.prems"(2) by simp
      then show ?thesis using "1.IH" True "1.prems"(1) s by simp
    qed
  next
    case False
    then have "scan_down key vp a j = j"
      by (subst scan_down.simps) auto
    then show ?thesis using "1.prems" by simp
  qed
qed

lemma scan_down_stop:
  "0 < scan_down key vp a j \<Longrightarrow> \<not> vp < key (a ! scan_down key vp a j)"
proof (induction key vp a j rule: scan_down.induct)
  case (1 key vp a j)
  show ?case
  proof (cases "0 < j \<and> vp < key (a ! j)")
    case True
    then have s: "scan_down key vp a j = scan_down key vp a (j - 1)"
      by (subst scan_down.simps) simp
    then show ?thesis using "1.IH" True "1.prems" by simp
  next
    case False
    then have s: "scan_down key vp a j = j"
      by (subst scan_down.simps) auto
    then show ?thesis using False "1.prems" by simp
  qed
qed

lemma scan_down_bound:
  assumes "m \<le> j" and "\<not> vp < key (a ! m)"
  shows "m \<le> scan_down key vp a j"
proof (rule ccontr)
  assume "\<not> m \<le> scan_down key vp a j"
  then have "scan_down key vp a j < m" by simp
  then have "vp < key (a ! m)" using assms(1) by (rule scan_down_above)
  then show False using assms(2) by simp
qed

text \<open>
  The scans stop inside the range, and the loop leaves the elements that are not above
  the pivot value before \<open>p_i\<close> and the others from \<open>p_i\<close> on.
\<close>

lemma partition_loop_correct:
  "partition_inv key vp n a p_i p_j \<Longrightarrow> partition_post key vp n a (fst (partition_loop key vp a p_i p_j)) (snd (partition_loop key vp a p_i p_j))"
proof (induction key vp a p_i p_j rule: partition_loop.induct)
  case (1 key vp a p_i p_j)
  define p_i' where "p_i' = scan_up key vp a (Suc p_i)"
  define p_j' where "p_j' = scan_down key vp a (p_j - 1)"
  note inv = "1.prems" [unfolded partition_inv_def]
  have len: "length a = n" and lt: "p_i < p_j" and pjn: "p_j + 1 < n"
    and lo: "\<forall>k \<le> p_i. key (a ! k) \<le> vp"
    and hi: "\<forall>k. p_j \<le> k \<and> k < n \<longrightarrow> vp \<le> key (a ! k)"
    using inv by simp_all
  have "\<not> key (a ! p_j) < vp" using hi pjn by (simp add: not_less)
  moreover have "Suc p_i \<le> p_j" using lt by simp
  ultimately have p_i'_le: "p_i' \<le> p_j"
    unfolding p_i'_def by (rule scan_up_bound [rotated])
  have p_i'_gt: "p_i < p_i'"
    unfolding p_i'_def using scan_up_ge [of "Suc p_i" key vp a] by simp
  have "\<not> vp < key (a ! p_i)" using lo by (simp add: not_less)
  moreover have "p_i \<le> p_j - 1" using lt by simp
  ultimately have p_j'_ge: "p_i \<le> p_j'"
    unfolding p_j'_def by (rule scan_down_bound [rotated])
  have p_j'_le: "p_j' < p_j"
    unfolding p_j'_def using scan_down_le [of key vp a "p_j - 1"] lt by simp
  have below: "\<And>k. k < p_i' \<Longrightarrow> key (a ! k) \<le> vp"
  proof -
    fix k assume k: "k < p_i'"
    show "key (a ! k) \<le> vp"
    proof (cases "k \<le> p_i")
      case True then show ?thesis using lo by simp
    next
      case False
      then have "Suc p_i \<le> k" by simp
      then have "key (a ! k) < vp"
        using k unfolding p_i'_def by (rule scan_up_below)
      then show ?thesis by simp
    qed
  qed
  have above: "\<And>k. p_j' < k \<Longrightarrow> k < n \<Longrightarrow> vp \<le> key (a ! k)"
  proof -
    fix k assume k: "p_j' < k" "k < n"
    show "vp \<le> key (a ! k)"
    proof (cases "p_j \<le> k")
      case True then show ?thesis using hi k by simp
    next
      case False
      then have "k \<le> p_j - 1" by simp
      with k(1) have "vp < key (a ! k)"
        unfolding p_j'_def by (rule scan_down_above)
      then show ?thesis by simp
    qed
  qed
  have at_pi': "vp \<le> key (a ! p_i')"
  proof -
    have "p_i' < length a" using p_i'_le pjn len by simp
    then have "\<not> key (a ! p_i') < vp" unfolding p_i'_def by (rule scan_up_stop)
    then show ?thesis by simp
  qed
  show ?case
  proof (cases "p_j' \<le> p_i'")
    case True
    then have h: "partition_loop key vp a p_i p_j = (a, p_i')"
      by (subst partition_loop.simps) (simp add: p_i'_def p_j'_def Let_def)
    have "\<And>k. p_i' \<le> k \<Longrightarrow> k < n \<Longrightarrow> vp \<le> key (a ! k)"
    proof -
      fix k assume k: "p_i' \<le> k" "k < n"
      show "vp \<le> key (a ! k)"
      proof (cases "k = p_i'")
        case True then show ?thesis using at_pi' by simp
      next
        case False
        then have "p_j' < k" using k True by simp
        then show ?thesis using above k by simp
      qed
    qed
    then show ?thesis
      unfolding partition_post_def h using len below p_i'_gt p_i'_le pjn by simp
  next
    case False
    then have cont: "p_i' < p_j'" by simp
    then have h: "partition_loop key vp a p_i p_j = partition_loop key vp (intp_swap p_i' p_j' a) p_i' p_j'"
      by (subst partition_loop.simps) (simp add: p_i'_def p_j'_def Let_def)
    have bnd: "p_i' < n" "p_j' < n" using cont p_j'_le pjn by simp_all
    have at_pj': "key (a ! p_j') \<le> vp"
    proof -
      have "0 < p_j'" using cont by simp
      then have "\<not> vp < key (a ! p_j')" unfolding p_j'_def by (rule scan_down_stop)
      then show ?thesis by simp
    qed
    have inv': "partition_inv key vp n (intp_swap p_i' p_j' a) p_i' p_j'"
      unfolding partition_inv_def
    proof (intro conjI allI impI)
      show "length (intp_swap p_i' p_j' a) = n" using len by simp
      show "p_i' < p_j'" by (rule cont)
      show "p_j' + 1 < n" using p_j'_le pjn by simp
    next
      fix k assume k: "k \<le> p_i'"
      then have "k < n" using bnd by simp
      then have "intp_swap p_i' p_j' a ! k = (if k = p_j' then a ! p_i' else if k = p_i' then a ! p_j' else a ! k)"
        using bnd len by (intro intp_swap_nth) simp_all
      then show "key (intp_swap p_i' p_j' a ! k) \<le> vp"
        using k cont at_pj' below [of k] by (cases "k = p_i'") simp_all
    next
      fix k assume k: "p_j' \<le> k \<and> k < n"
      then have "intp_swap p_i' p_j' a ! k = (if k = p_j' then a ! p_i' else if k = p_i' then a ! p_j' else a ! k)"
        using bnd len by (intro intp_swap_nth) simp_all
      then show "vp \<le> key (intp_swap p_i' p_j' a ! k)"
        using k cont at_pi' above [of k] by (cases "k = p_j'") simp_all
    qed
    have post: "partition_post key vp n (intp_swap p_i' p_j' a)
        (fst (partition_loop key vp (intp_swap p_i' p_j' a) p_i' p_j'))
        (snd (partition_loop key vp (intp_swap p_i' p_j' a) p_i' p_j'))"
      using "1.IH" [OF p_i'_def p_j'_def False inv'] .
    have m: "mset (intp_swap p_i' p_j' a) = mset a"
      using bnd len by (intro intp_swap_mset) simp_all
    have ne: "n - 2 \<noteq> p_i'" "n - 2 \<noteq> p_j'" "n - 1 \<noteq> p_i'" "n - 1 \<noteq> p_j'"
      using cont p_j'_le pjn by arith+
    have k2: "intp_swap p_i' p_j' a ! (n - 2) = a ! (n - 2)"
      using bnd len ne by (subst intp_swap_nth) simp_all
    have k1: "intp_swap p_i' p_j' a ! (n - 1) = a ! (n - 1)"
      using bnd len ne by (subst intp_swap_nth) simp_all
    show ?thesis
      using post unfolding partition_post_def h m k1 k2 by simp
  qed
qed


lemma swap_if_less_length [simp]: "length (swap_if_less key i j a) = length a"
  by (simp add: swap_if_less_def)

lemma swap_if_less_mset:
  "i < length a \<Longrightarrow> j < length a \<Longrightarrow> mset (swap_if_less key i j a) = mset a"
  by (simp add: swap_if_less_def intp_swap_mset)

lemma swap_if_less_keys:
  assumes "i < length a" "j < length a" "i \<noteq> j"
  shows "key (swap_if_less key i j a ! j) = min (key (a ! i)) (key (a ! j))"
    and "key (swap_if_less key i j a ! i) = max (key (a ! i)) (key (a ! j))"
    and "k < length a \<Longrightarrow> k \<noteq> i \<Longrightarrow> k \<noteq> j \<Longrightarrow> swap_if_less key i j a ! k = a ! k"
  using assms by (auto simp: swap_if_less_def intp_swap_nth min_def max_def)

lemma median_of_three_correct:
  fixes key :: "'a \<Rightarrow> 'k::linorder"
  assumes "3 \<le> length xs"
  defines "a \<equiv> median_of_three key xs"
  shows "length a = length xs" and "mset a = mset xs"
    and "key (a ! 0) \<le> key (a ! ((length xs - 1) div 2))"
    and "key (a ! ((length xs - 1) div 2)) \<le> key (a ! (length xs - 1))"
proof -
  define pr where "pr = length xs - 1"
  define pm where "pm = pr div 2"
  define a1 where "a1 = swap_if_less key pm 0 xs"
  define a2 where "a2 = swap_if_less key pr pm a1"
  have idx: "0 < pm" "pm < pr" "pr < length xs"
    using assms(1) by (simp_all add: pr_def pm_def)
  have a: "a = swap_if_less key pm 0 a2"
    by (simp add: a_def median_of_three_def a1_def a2_def pr_def pm_def Let_def)
  have l1: "length a1 = length xs" and l2: "length a2 = length xs"
    by (simp_all add: a1_def a2_def)
  show "length a = length xs"
    by (simp add: a l2)
  have "mset a1 = mset xs"
    unfolding a1_def using idx by (intro swap_if_less_mset) auto
  moreover have "mset a2 = mset a1"
    unfolding a2_def using idx l1 by (intro swap_if_less_mset) auto
  moreover have "mset a = mset a2"
    unfolding a using idx l2 by (intro swap_if_less_mset) auto
  ultimately show "mset a = mset xs"
    by simp
  have ne: "xs \<noteq> []" "a1 \<noteq> []" "a2 \<noteq> []"
    using idx l1 l2 by auto
  have k1: "key (a1 ! 0) = min (key (xs ! pm)) (key (xs ! 0))"
    "key (a1 ! pm) = max (key (xs ! pm)) (key (xs ! 0))" "a1 ! pr = xs ! pr"
    unfolding a1_def using idx ne swap_if_less_keys [where i = pm and a = xs and j = 0 and key = key] by auto
  have k2: "key (a2 ! pm) = min (key (a1 ! pr)) (key (a1 ! pm))"
    "key (a2 ! pr) = max (key (a1 ! pr)) (key (a1 ! pm))" "a2 ! 0 = a1 ! 0"
    unfolding a2_def using idx l1 ne swap_if_less_keys [where i = pr and a = a1 and j = pm and key = key] by auto
  have k3: "key (a ! 0) = min (key (a2 ! pm)) (key (a2 ! 0))"
    "key (a ! pm) = max (key (a2 ! pm)) (key (a2 ! 0))" "a ! pr = a2 ! pr"
    unfolding a using idx l2 ne swap_if_less_keys [where i = pm and a = a2 and j = 0 and key = key] by auto
  have "key (a ! 0) \<le> key (a ! pm)"
    unfolding k3 by (rule order_trans [OF min.cobounded1 max.cobounded1])
  then show "key (a ! 0) \<le> key (a ! ((length xs - 1) div 2))"
    by (simp add: pr_def pm_def)
  have "key (a ! pm) \<le> key (a ! pr)"
    unfolding k3 k2 k1 by (auto simp: min_def max_def)
  then show "key (a ! ((length xs - 1) div 2)) \<le> key (a ! (length xs - 1))"
    by (simp add: pr_def pm_def)
qed

lemma quicksort_partition_correct:
  fixes key :: "'a \<Rightarrow> 'k::linorder"
  assumes "3 \<le> length xs"
  defines "a \<equiv> fst (quicksort_partition key xs)" and "p \<equiv> snd (quicksort_partition key xs)"
  shows "length a = length xs" and "mset a = mset xs" and "p < length xs"
    and "\<forall>k < p. key (a ! k) \<le> key (a ! p)"
    and "\<forall>k. p < k \<and> k < length xs \<longrightarrow> key (a ! p) \<le> key (a ! k)"
proof -
  define n where "n = length xs"
  define pr where "pr = n - 1"
  define pm where "pm = pr div 2"
  define m where "m = median_of_three key xs"
  define vp where "vp = key (m ! pm)"
  define b where "b = intp_swap pm (pr - 1) m"
  define h where "h = partition_loop key vp b 0 (pr - 1)"
  have idx: "0 < pm" "pm < pr" "pr < n" "pm \<le> pr - 1" "0 < pr - 1" "pr - 1 = n - 2"
    using assms(1) by (auto simp: pr_def pm_def n_def)
  have mc: "length m = n" "mset m = mset xs" "key (m ! 0) \<le> key (m ! pm)"
    "key (m ! pm) \<le> key (m ! pr)"
    using median_of_three_correct [OF assms(1), of key]
    by (simp_all add: m_def n_def pr_def pm_def)
  have lb: "length b = n"
    by (simp add: b_def mc(1))
  have mb: "mset b = mset xs"
    unfolding b_def using idx mc(1,2) by (simp add: intp_swap_mset)
  have bn: "b ! k = (if k = pr - 1 then m ! pm else if k = pm then m ! (pr - 1) else m ! k)"
    if "k < n" for k
    unfolding b_def using that idx mc(1) by (subst intp_swap_nth) simp_all
  have b0: "key (b ! 0) \<le> vp"
    using bn [of 0] idx mc(3) by (simp add: vp_def)
  have bp: "key (b ! (pr - 1)) = vp"
    using bn [of "pr - 1"] idx by (simp add: vp_def)
  have br: "vp \<le> key (b ! pr)"
    using bn [of pr] idx mc(4) by (simp add: vp_def)
  have inv: "partition_inv key vp n b 0 (pr - 1)"
    unfolding partition_inv_def
  proof (intro conjI allI impI)
    show "length b = n" by (rule lb)
    show "0 < pr - 1" using idx by simp
    show "pr - 1 + 1 < n" using idx by simp
  next
    fix k :: nat assume "k \<le> 0"
    then show "key (b ! k) \<le> vp" using b0 by simp
  next
    fix k assume "pr - 1 \<le> k \<and> k < n"
    then have "k = pr - 1 \<or> k = pr" using idx by (auto simp: pr_def)
    then show "vp \<le> key (b ! k)" using bp br by auto
  qed
  note post = partition_loop_correct [OF inv, folded h_def, unfolded partition_post_def]
  have part: "quicksort_partition key xs = (intp_swap (snd h) (pr - 1) (fst h), snd h)"
    by (simp add: quicksort_partition_def Let_def h_def b_def vp_def m_def pm_def pr_def n_def
        split: prod.splits)
  have a: "a = intp_swap (snd h) (pr - 1) (fst h)" and p: "p = snd h"
    by (simp_all add: a_def p_def part)
  have lh: "length (fst h) = n" and ph: "0 < p" "p + 1 < n"
    using post by (simp_all add: p)
  have piv: "key (fst h ! (pr - 1)) = vp"
    using post bp idx by simp
  show "length a = length xs"
    by (simp add: a lh n_def)
  have "mset a = mset (fst h)"
    unfolding a using lh ph idx by (intro intp_swap_mset) (simp_all add: p)
  then show "mset a = mset xs"
    using post mb by simp
  show "p < length xs"
    using ph by (simp add: n_def)
  have an: "a ! k = (if k = pr - 1 then fst h ! p else if k = p then fst h ! (pr - 1) else fst h ! k)"
    if "k < n" for k
    unfolding a p [symmetric] using that idx lh ph by (subst intp_swap_nth) simp_all
  have ap: "key (a ! p) = vp"
    using an [of p] ph piv by simp
  have at_p: "vp \<le> key (fst h ! p)"
    using post ph by (simp add: p)
  show "\<forall>k < p. key (a ! k) \<le> key (a ! p)"
  proof (intro allI impI)
    fix k assume k: "k < p"
    then have "k < n" "k \<noteq> pr - 1" using ph idx by simp_all
    then have "a ! k = fst h ! k" using an [of k] k by simp
    moreover have "key (fst h ! k) \<le> vp" using post k by (simp add: p)
    ultimately show "key (a ! k) \<le> key (a ! p)" by (simp add: ap)
  qed
  show "\<forall>k. p < k \<and> k < length xs \<longrightarrow> key (a ! p) \<le> key (a ! k)"
  proof (intro allI impI)
    fix k assume k: "p < k \<and> k < length xs"
    then have kn: "k < n" by (simp add: n_def)
    show "key (a ! p) \<le> key (a ! k)"
    proof (cases "k = pr - 1")
      case True
      then show ?thesis using an [of k] kn at_p by (simp add: ap)
    next
      case False
      then have "a ! k = fst h ! k" using an [of k] kn k by simp
      moreover have "vp \<le> key (fst h ! k)" using post k kn by (simp add: p)
      ultimately show ?thesis by (simp add: ap)
    qed
  qed
qed

text \<open>Both sides of a partition are shorter than the range, so the sort ends.\<close>

termination aquicksort_range
proof (relation "measure (\<lambda>(key, aheapsort, popped, cdepth, xs). length xs)", goal_cases)
  case 1
  show ?case by simp
next
  case (2 key aheapsort popped cdepth xs a p_i push_right)
  then have "3 \<le> length xs" by simp
  from quicksort_partition_correct(3) [OF this, of key] 2 show ?case by simp
next
  case (3 key aheapsort popped cdepth xs a p_i push_right)
  then have "3 \<le> length xs" by simp
  from quicksort_partition_correct(1) [OF this, of key] 3 show ?case by simp
qed

declare aquicksort_range.simps [simp del]

lemma insertion_step_Nil [simp]: "insertion_step key x [] = [x]"
  by (simp add: insertion_step.simps)

lemma insertion_step_snoc:
  "insertion_step key x (p @ [y]) = (if key x < key y then insertion_step key x p @ [y] else p @ [y, x])"
  by (subst insertion_step.simps) simp

lemma insertion_step_mset [simp]: "mset (insertion_step key x p) = add_mset x (mset p)"
  by (induction p rule: rev_induct) (simp_all add: insertion_step_snoc)

lemma insertion_step_sorted: "sorted (map key p) \<Longrightarrow> sorted (map key (insertion_step key x p))"
proof (induction p rule: rev_induct)
  case Nil
  then show ?case by simp
next
  case (snoc y p)
  have set_ins: "set (insertion_step key x p) = insert x (set p)"
    using insertion_step_mset [of key x p] by (metis set_mset_add_mset_insert set_mset_mset)
  from snoc show ?case
    by (auto simp: insertion_step_snoc sorted_append set_ins)
qed

lemma insertion_sort_snoc: "insertion_sort key (xs @ [x]) = insertion_step key x (insertion_sort key xs)"
  by (simp add: insertion_sort_def)

lemma insertion_sort_mset [simp]: "mset (insertion_sort key xs) = mset xs"
  by (induction xs rule: rev_induct) (simp_all add: insertion_sort_snoc, simp add: insertion_sort_def)

lemma insertion_sort_sorted: "sorted (map key (insertion_sort key xs))"
  by (induction xs rule: rev_induct)
    (simp add: insertion_sort_def, simp add: insertion_sort_snoc insertion_step_sorted)

text \<open>
  With a heapsort that sorts, the result has the elements of the range in ascending
  order of the key.
\<close>

lemma aquicksort_range_sorts:
  "sorts_by key aheapsort \<Longrightarrow>
   mset (aquicksort_range key aheapsort popped cdepth xs) = mset xs
   \<and> sorted (map key (aquicksort_range key aheapsort popped cdepth xs))"
proof (induction key aheapsort popped cdepth xs rule: aquicksort_range.induct)
  case (1 key aheapsort popped cdepth xs)
  show ?case
  proof (cases "popped \<and> cdepth < 0")
    case True
    then have "aquicksort_range key aheapsort popped cdepth xs = aheapsort xs"
      by (subst aquicksort_range.simps) simp
    then show ?thesis
      using "1.prems" by (simp add: sorts_by_def)
  next
    case shallow: False
    show ?thesis
    proof (cases "16 < length xs - 1")
      case False
      then have "aquicksort_range key aheapsort popped cdepth xs = insertion_sort key xs"
        using shallow by (subst aquicksort_range.simps) auto
      then show ?thesis
        by (simp add: insertion_sort_sorted)
    next
      case True
      define a where "a = fst (quicksort_partition key xs)"
      define p where "p = snd (quicksort_partition key xs)"
      define push_right where "push_right = (p < length xs - 1 - p)"
      define l where "l = aquicksort_range key aheapsort (\<not> push_right) (cdepth - 1) (take p a)"
      define r where "r = aquicksort_range key aheapsort push_right (cdepth - 1) (drop (Suc p) a)"
      have eq: "aquicksort_range key aheapsort popped cdepth xs = l @ [a ! p] @ r"
        using shallow True
        by (subst aquicksort_range.simps) (auto simp: Let_def a_def p_def push_right_def l_def r_def)
      have n3: "3 \<le> length xs"
        using True by simp
      note pc = quicksort_partition_correct [OF n3, of key, folded a_def p_def]
      have il: "mset l = mset (take p a) \<and> sorted (map key l)"
        unfolding l_def
        using "1.IH"(1) [OF shallow True a_def p_def push_right_def "1.prems"] .
      have ir: "mset r = mset (drop (Suc p) a) \<and> sorted (map key r)"
        unfolding r_def
        using "1.IH"(2) [OF shallow True a_def p_def push_right_def "1.prems"] .
      have pa: "p < length a"
        using pc by simp
      have "mset (l @ [a ! p] @ r) = mset (take p a @ a ! p # drop (Suc p) a)"
        using il ir by simp
      also have "\<dots> = mset xs"
        using pc(2) id_take_nth_drop [OF pa] by simp
      finally have m: "mset (aquicksort_range key aheapsort popped cdepth xs) = mset xs"
        by (simp add: eq)
      have sl: "set l = set (take p a)" and sr: "set r = set (drop (Suc p) a)"
        using il ir by (metis set_mset_mset)+
      have le_l: "key x \<le> key (a ! p)" if "x \<in> set l" for x
      proof -
        from that sl obtain k where "k < p" "x = a ! k"
          using pa by (auto simp: in_set_conv_nth)
        then show ?thesis using pc(4) by simp
      qed
      have ge_r: "key (a ! p) \<le> key x" if "x \<in> set r" for x
      proof -
        from that sr obtain k where "k < length a - Suc p" "x = a ! (Suc p + k)"
          using pa by (auto simp: in_set_conv_nth)
        then show ?thesis using pc(5) pc(1) by simp
      qed
      have "sorted (map key (l @ [a ! p] @ r))"
        using il ir le_l ge_r by (auto simp: sorted_append intro: order_trans)
      then show ?thesis
        using m by (simp add: eq)
    qed
  qed
qed

lemma aquicksort_sorts:
  "sorts_by key aheapsort \<Longrightarrow>
   mset (aquicksort key aheapsort xs) = mset xs \<and> sorted (map key (aquicksort key aheapsort xs))"
  unfolding aquicksort_def by (rule aquicksort_range_sorts)

text \<open>
  The insertion sort keeps the elements of one key in their order, so that a list of at
  most 17 elements is sorted as by the stable sort \<^const>\<open>sort_key\<close> of the library.
\<close>

lemma insertion_step_filter:
  "filter (\<lambda>y. key y = k) (insertion_step key x p) = filter (\<lambda>y. key y = k) (p @ [x])"
  by (induction p rule: rev_induct) (auto simp: insertion_step_snoc)

lemma insertion_sort_filter:
  "filter (\<lambda>y. key y = k) (insertion_sort key xs) = filter (\<lambda>y. key y = k) xs"
  by (induction xs rule: rev_induct)
    (simp add: insertion_sort_def, simp add: insertion_sort_snoc insertion_step_filter)

lemma insertion_sort_stable: "insertion_sort key xs = sort_key key xs"
proof (rule properties_for_sort_key [symmetric])
  show "mset (insertion_sort key xs) = mset xs"
    by simp
  show "sorted (map key (insertion_sort key xs))"
    by (rule insertion_sort_sorted)
  fix k
  have "(\<lambda>x. key k = key x) = (\<lambda>y. key y = key k)"
    by auto
  then show "filter (\<lambda>x. key k = key x) (insertion_sort key xs) = filter (\<lambda>x. key k = key x) xs"
    by (simp add: insertion_sort_filter)
qed

lemma npy_get_msb_nonneg: "0 \<le> npy_get_msb n"
  by (induction n rule: npy_get_msb.induct) (subst npy_get_msb.simps, simp)

lemma aquicksort_short:
  "length xs \<le> 17 \<Longrightarrow> aquicksort key aheapsort xs = sort_key key xs"
  unfolding aquicksort_def using npy_get_msb_nonneg [of "length xs"]
  by (subst aquicksort_range.simps) (auto simp: insertion_sort_stable)

subsection \<open>The batch\<close>

lemma sort_key_sorts_by: "sorts_by key (sort_key key)"
  by (simp add: sorts_by_def)

text \<open>
  Claim C1, as the code has it. The rows written to the output are the rows that
  survived both filters, each as often as it was produced, in ascending order of the
  date. When at most 17 rows are written, the rows of one date are in the order in which
  they were produced: the output is the stable sort of the surviving rows. Nothing is
  said about the order of rows with equal dates in a longer output.
\<close>

theorem convert_sorted_rows:
  assumes "sorts_by date aheapsort"
    and "convert_journal_files aheapsort to_datetime (Some md_files) = Some rows"
  shows "sorted (map date rows)
         \<and> mset rows
             = mset (dropna (coerce_dates to_datetime (fst (convert_loop ([], 0, 0) md_files))))
         \<and> (length rows \<le> 17 \<longrightarrow>
              rows = sort_key date
                       (dropna (coerce_dates to_datetime (fst (convert_loop ([], 0, 0) md_files)))))"
proof -
  let ?survivors = "dropna (coerce_dates to_datetime (fst (convert_loop ([], 0, 0) md_files)))"
  have rows: "rows = aquicksort date aheapsort ?survivors"
    using assms(2) by (auto simp: convert_journal_files_def split: prod.splits if_splits)
  have sorted: "mset rows = mset ?survivors \<and> sorted (map date rows)"
    unfolding rows using assms(1) by (rule aquicksort_sorts)
  have "rows = sort_key date ?survivors" if "length rows \<le> 17"
  proof -
    have "length rows = length ?survivors"
      using sorted by (metis size_mset)
    then show ?thesis
      unfolding rows using that aquicksort_short [of ?survivors date aheapsort] by (simp add: rows)
  qed
  then show ?thesis
    using sorted by simp
qed

theorem convert_sorted_rows_witness:
  "sorts_by date (sort_key date :: int entry list \<Rightarrow> int entry list)
   \<and> convert_journal_files (sort_key date) (\<lambda>col. strict_iso_date) (Some sample_dir)
       = Some [\<lparr>date = 20241231, title = ''New year'', content = []\<rparr>,
               \<lparr>date = 20250110, title = ''First'', content = ''one''\<rparr>]
   \<and> sorted (map date [\<lparr>date = 20241231 :: int, title = ''New year'', content = []\<rparr>,
               \<lparr>date = 20250110, title = ''First'', content = ''one''\<rparr>])
   \<and> mset [\<lparr>date = 20241231 :: int, title = ''New year'', content = []\<rparr>,
               \<lparr>date = 20250110, title = ''First'', content = ''one''\<rparr>]
        = mset (dropna (coerce_dates (\<lambda>col. strict_iso_date)
                  (fst (convert_loop ([], 0, 0) sample_dir))))
   \<and> length [\<lparr>date = 20241231 :: int, title = ''New year'', content = []\<rparr>,
               \<lparr>date = 20250110, title = ''First'', content = ''one''\<rparr>] \<le> 17
   \<and> [\<lparr>date = 20241231 :: int, title = ''New year'', content = []\<rparr>,
               \<lparr>date = 20250110, title = ''First'', content = ''one''\<rparr>]
        = sort_key date (dropna (coerce_dates (\<lambda>col. strict_iso_date)
                  (fst (convert_loop ([], 0, 0) sample_dir))))"
proof -
  have a: "sorts_by date (sort_key date :: int entry list \<Rightarrow> int entry list)"
    by (rule sort_key_sorts_by)
  have b: "convert_journal_files (sort_key date) (\<lambda>col. strict_iso_date) (Some sample_dir)
       = Some [\<lparr>date = 20241231, title = ''New year'', content = []\<rparr>,
               \<lparr>date = 20250110, title = ''First'', content = ''one''\<rparr>]"
    unfolding sample_dir_def by code_simp
  have c: "length [\<lparr>date = 20241231 :: int, title = ''New year'', content = []\<rparr>,
               \<lparr>date = 20250110, title = ''First'', content = ''one''\<rparr>] \<le> 17"
    by simp
  note rows = convert_sorted_rows [OF a b]
  have d: "sorted (map date [\<lparr>date = 20241231 :: int, title = ''New year'', content = []\<rparr>,
               \<lparr>date = 20250110, title = ''First'', content = ''one''\<rparr>])"
    using rows by (rule conjunct1)
  have e: "mset [\<lparr>date = 20241231 :: int, title = ''New year'', content = []\<rparr>,
               \<lparr>date = 20250110, title = ''First'', content = ''one''\<rparr>]
        = mset (dropna (coerce_dates (\<lambda>col. strict_iso_date)
                  (fst (convert_loop ([], 0, 0) sample_dir))))"
    using rows by (rule conjunct1 [OF conjunct2])
  have f: "[\<lparr>date = 20241231 :: int, title = ''New year'', content = []\<rparr>,
               \<lparr>date = 20250110, title = ''First'', content = ''one''\<rparr>]
        = sort_key date (dropna (coerce_dates (\<lambda>col. strict_iso_date)
                  (fst (convert_loop ([], 0, 0) sample_dir))))"
    using rows c by (rule mp [OF conjunct2 [OF conjunct2]])
  show ?thesis
    by (intro conjI) (rule a, rule b, rule d, rule e, rule c, rule f)
qed

text \<open>
  Claim C1 as stated, with the original order kept among equal dates in every batch,
  does not hold. The eighteen files of \<^const>\<open>same_day_dir\<close> give eighteen rows of one date,
  produced in the order \<open>A\<close> to \<open>R\<close>. The partition step of the quicksort exchanges the rows
  around the pivot \<open>I\<close>, neither side goes below the depth limit, and the output has the
  rows \<open>B\<close> to \<open>P\<close> in the reverse of the order in which they were produced.
\<close>

theorem convert_reorders_equal_dates:
  "dropna (coerce_dates (\<lambda>col. strict_iso_date) (fst (convert_loop ([], 0, 0) same_day_dir)))
     = map (\<lambda>t. \<lparr>date = 20250110, title = t, content = t\<rparr>)
         [''A'', ''B'', ''C'', ''D'', ''E'', ''F'', ''G'', ''H'', ''I'',
            ''J'', ''K'', ''L'', ''M'', ''N'', ''O'', ''P'', ''Q'', ''R'']
   \<and> convert_journal_files (sort_key date) (\<lambda>col. strict_iso_date) (Some same_day_dir)
     = Some (map (\<lambda>t. \<lparr>date = 20250110, title = t, content = t\<rparr>)
         [''A'', ''P'', ''O'', ''N'', ''M'', ''L'', ''K'', ''J'', ''I'',
            ''H'', ''G'', ''F'', ''E'', ''D'', ''C'', ''B'', ''Q'', ''R''])"
  unfolding same_day_dir_def by (intro conjI) code_simp+

text \<open>
  The function returns \<open>None\<close> exactly when the directory does not exist or no file gave
  a date string; the test is made before the dates are validated.
\<close>

lemma convert_journal_files_None_iff:
  "convert_journal_files aheapsort to_datetime journal_dir = None
   \<longleftrightarrow> (journal_dir = None
        \<or> (\<exists>md_files. journal_dir = Some md_files
              \<and> fst (convert_loop ([], 0, 0) md_files) = []))"
  by (cases journal_dir) (auto simp: convert_journal_files_def split: prod.splits)

text \<open>
  Claim C2. When no entry survives the validation of the dates the conversion is
  meant to fail. For a directory whose only file is \<open>99 99 2022.md\<close> the entry gets the
  date string \<open>2022-99-99\<close>, which is no date, and the function succeeds with an output
  of no rows.
\<close>

theorem convert_succeeds_without_rows:
  "convert_journal_files (sort_key date) (\<lambda>col. strict_iso_date)
     (Some [\<lparr>file_name = ''99 99 2022.md'', file_text = Inr ''hello''\<rparr>]) = Some []
   \<and> get_entry_details ''99 99 2022.md'' ''hello''
       = (Some ''2022-99-99'', ''Untitled Entry'', ''hello'')
   \<and> strict_iso_date ''2022-99-99'' = None"
  by code_simp

section \<open>Properties of the statistics\<close>

lemma fold_max_Max: "fold max ys (a::nat) = Max (insert a (set ys))"
  using Max.set_eq_fold [of a ys] by simp

lemma max_count_attained:
  assumes "xs \<noteq> []"
  shows "\<exists>x \<in> set xs. count_list xs x = max_count xs"
proof -
  let ?S = "insert 0 (count_list xs ` set xs)"
  have mc: "max_count xs = Max ?S"
    by (simp add: max_count_def fold_max_Max)
  have fin: "finite ?S"
    by simp
  have "Max ?S \<in> ?S"
    using fin by (rule Max_in) simp
  moreover have "Max ?S \<noteq> 0"
  proof -
    obtain x where x: "x \<in> set xs"
      using assms by (cases xs) auto
    then have "count_list xs x \<noteq> 0"
      by (simp add: count_list_0_iff)
    moreover have "count_list xs x \<le> Max ?S"
      using x fin by (intro Max_ge) simp_all
    ultimately show ?thesis
      by linarith
  qed
  ultimately have "Max ?S \<in> count_list xs ` set xs"
    by blast
  then show ?thesis
    unfolding mc by (metis imageE)
qed

lemma mode_set: "set (mode xs) = {v \<in> set xs. count_list xs v = max_count xs}"
  by (simp add: mode_def)

lemma mode_sorted: "sorted (mode xs)"
  by (simp add: mode_def)

lemma mode_head_least:
  assumes "mode xs = m # ms"
  shows "m \<in> set xs \<and> count_list xs m = max_count xs
         \<and> (\<forall>c \<in> set xs. count_list xs c = max_count xs \<longrightarrow> m \<le> c)"
proof -
  have "m \<in> set (mode xs)"
    using assms by simp
  then have 1: "m \<in> set xs \<and> count_list xs m = max_count xs"
    by (simp add: mode_set)
  have "sorted (m # ms)"
    using mode_sorted [of xs] assms by simp
  then have "\<forall>c \<in> set ms. m \<le> c"
    by simp
  then have 2: "\<forall>c \<in> set (mode xs). m \<le> c"
    using assms by simp
  have "\<forall>c \<in> set xs. count_list xs c = max_count xs \<longrightarrow> m \<le> c"
  proof (intro ballI impI)
    fix c
    assume "c \<in> set xs" "count_list xs c = max_count xs"
    then have "c \<in> set (mode xs)"
      by (simp add: mode_set)
    with 2 show "m \<le> c"
      by (rule bspec)
  qed
  with 1 show ?thesis
    by (intro conjI) simp_all
qed

lemma mood_frame_statistics: "get_mood_statistics mood_frame = Inr (2, 0, ''Negative'', 2)"
proof -
  have m: "mode [''Positive'', ''Negative''] = [''Negative'', ''Positive'']"
    by code_simp
  have c: "map mood_category mood_frame = [''Positive'', ''Negative'']"
    by (simp add: mood_frame_def)
  have e: "epoch_seconds sample_date = 1736467200" "epoch_seconds later_date = 1736640000"
    unfolding sample_date_def later_date_def by code_simp+
  have s: "map (\<lambda>r. epoch_seconds (date r)) mood_frame = [1736467200, 1736640000]"
    by (simp add: mood_frame_def e)
  have a: "sum_list (map sentiment_score mood_frame) / real (length mood_frame) = 0"
    by (simp add: mood_frame_def)
  have n: "mood_frame \<noteq> []" "length mood_frame = 2"
    by (simp_all add: mood_frame_def)
  show ?thesis
    unfolding get_mood_statistics_def Let_def c s m a by (simp add: n)
qed

text \<open>
  Claim C4, as the code has it. For a non-empty collection the mode category is one of
  the categories with the maximum count, and among these it is the least in the order
  of strings (the first in alphabetical order).
\<close>

theorem get_mood_statistics_mode_least:
  assumes "df \<noteq> []"
  shows "\<exists>total avg m range.
           get_mood_statistics df = Inr (total, avg, m, range)
           \<and> m \<in> set (map mood_category df)
           \<and> count_list (map mood_category df) m = max_count (map mood_category df)
           \<and> (\<forall>c \<in> set (map mood_category df).
                 count_list (map mood_category df) c = max_count (map mood_category df)
                 \<longrightarrow> m \<le> c)"
proof -
  let ?cats = "map mood_category df"
  let ?stamps = "map (\<lambda>r. epoch_seconds (date r)) df"
  have "?cats \<noteq> []"
    using assms by simp
  from max_count_attained [OF this]
  obtain x where "x \<in> set ?cats" "count_list ?cats x = max_count ?cats"
    by (rule bexE)
  then have "x \<in> set (mode ?cats)"
    by (simp only: mode_set mem_Collect_eq simp_thms)
  then obtain m ms where m: "mode ?cats = m # ms"
    by (cases "mode ?cats") auto
  have g: "get_mood_statistics df =
             Inr (length df, sum_list (map sentiment_score df) / real (length df), m,
                  (fold max ?stamps (hd ?stamps) - fold min ?stamps (hd ?stamps)) div 86400)"
    by (simp only: get_mood_statistics_def Let_def m assms if_False list.case)
  show ?thesis
    by (intro exI) (rule conjI [OF g mode_head_least [OF m]])
qed

theorem get_mood_statistics_mode_least_witness:
  "mood_frame \<noteq> []
   \<and> get_mood_statistics mood_frame = Inr (2, 0, ''Negative'', 2)
   \<and> ''Negative'' \<in> set (map mood_category mood_frame)
   \<and> count_list (map mood_category mood_frame) ''Negative''
       = max_count (map mood_category mood_frame)"
proof -
  have h: "mood_frame \<noteq> []"
    by (simp add: mood_frame_def)
  from get_mood_statistics_mode_least [OF h]
  obtain total avg m range where
    g: "get_mood_statistics mood_frame = Inr (total, avg, m, range)"
    and m: "m \<in> set (map mood_category mood_frame)"
      "count_list (map mood_category mood_frame) m = max_count (map mood_category mood_frame)"
    by auto
  have "m = ''Negative''"
    using g by (simp add: mood_frame_statistics)
  then show ?thesis
    using h m by (simp only: mood_frame_statistics simp_thms)
qed

text \<open>
  Claim C4 as stated fails when the category met first is not the least: with one
  Positive entry followed by one Negative entry the mode category is Negative.
\<close>

theorem get_mood_statistics_not_first_encountered:
  "get_mood_statistics mood_frame = Inr (2, 0, ''Negative'', 2)
   \<and> map mood_category mood_frame = [''Positive'', ''Negative'']
   \<and> first_encountered_mode (map mood_category mood_frame) = Some ''Positive''"
proof -
  have c: "map mood_category mood_frame = [''Positive'', ''Negative'']"
    by (simp add: mood_frame_def)
  have f: "first_encountered_mode [''Positive'', ''Negative''] = Some ''Positive''"
    by code_simp
  show ?thesis
    by (simp only: mood_frame_statistics c f simp_thms)
qed

section \<open>Properties of the entry store\<close>

lemma order_by_date_desc_orders: "orders_by_desc col_date order_by_date_desc"
  by (simp add: orders_by_desc_def order_by_date_desc_def rev_map [symmetric])

lemma insert_row_of_entry:
  "insert_entries db [row_of_entry e] =
     (Inr 1, db @ [\<lparr>col_date = str_timestamp (date e), col_title = Some (title e),
                    col_content = content e, col_sentiment_score = Some (sentiment_score e),
                    col_mood_category = Some (mood_category e),
                    col_keywords = keywords_str (Val (entry_keywords e))\<rparr>])"
  by (simp add: insert_entries_def row_of_entry_def str_date_def get_or_def)

lemma sample_date_str: "str_timestamp sample_date = ''2025-01-10 00:00:00''"
  unfolding sample_date_def by code_simp

lemma sample_str: "str_timestamp (date sample_entry) = ''2025-01-10 00:00:00''"
  using sample_date_str by (simp add: sample_entry_def)

lemma sample_kw: "keywords_str (Val (entry_keywords sample_entry)) = ''today,wonderful''"
  by (simp add: sample_entry_def keywords_str_def)

lemma insert_sample: "insert_entries [] [row_of_entry sample_entry] = (Inr 1, [sample_stored])"
  unfolding insert_row_of_entry sample_str sample_kw
  by (simp add: sample_entry_def sample_stored_def)

subsection \<open>Defaults for absent columns\<close>

text \<open>
  Claim C10. A row with a content is inserted, and the stored row has the empty string
  for an absent title, \<open>0.0\<close> for an absent sentiment score, \<open>Neutral\<close> for an absent mood
  category, and the empty string for an absent or empty keyword list.
\<close>

theorem insert_entries_defaults:
  assumes "row_content row = Some c"
  shows "\<exists>s. insert_entries db [row] = (Inr 1, db @ [s])
           \<and> (row_title row = Absent \<longrightarrow> col_title s = Some [])
           \<and> (row_sentiment_score row = Absent \<longrightarrow> col_sentiment_score s = Some 0)
           \<and> (row_mood_category row = Absent \<longrightarrow> col_mood_category s = Some ''Neutral'')
           \<and> (row_keywords row = Absent \<or> row_keywords row = Val []
                \<longrightarrow> col_keywords s = [])"
  using assms by (auto simp: insert_entries_def get_or_def keywords_str_def)

theorem insert_entries_defaults_witness:
  "row_content \<lparr>row_date = DateStr ''2025-01-10'', row_title = Absent, row_content = Some ''text'',
                 row_sentiment_score = Absent, row_mood_category = Absent, row_keywords = Absent\<rparr>
     = Some ''text''
   \<and> insert_entries []
        [\<lparr>row_date = DateStr ''2025-01-10'', row_title = Absent, row_content = Some ''text'',
          row_sentiment_score = Absent, row_mood_category = Absent, row_keywords = Absent\<rparr>]
       = (Inr 1, [\<lparr>col_date = ''2025-01-10'', col_title = Some [], col_content = ''text'',
                   col_sentiment_score = Some 0, col_mood_category = Some ''Neutral'',
                   col_keywords = []\<rparr>])"
proof -
  let ?row = "\<lparr>row_date = DateStr ''2025-01-10'', row_title = Absent, row_content = Some ''text'',
          row_sentiment_score = Absent, row_mood_category = Absent, row_keywords = Absent\<rparr>"
  have h: "row_content ?row = Some ''text''" by simp
  from insert_entries_defaults [OF h, of "[]"]
  obtain s where s: "insert_entries [] [?row] = (Inr 1, [] @ [s])"
      "col_title s = Some []" "col_sentiment_score s = Some 0"
      "col_mood_category s = Some ''Neutral''" "col_keywords s = []"
    by auto
  have "col_date s = ''2025-01-10''" "col_content s = ''text''"
    using s(1) by (auto simp: insert_entries_def str_date_def)
  then have "s = \<lparr>col_date = ''2025-01-10'', col_title = Some [], col_content = ''text'',
                   col_sentiment_score = Some 0, col_mood_category = Some ''Neutral'',
                   col_keywords = []\<rparr>"
    using s(2-5) by (cases s) simp
  then show ?thesis using s(1) h by simp
qed


subsection \<open>Round trip\<close>

lemma split_from_no_sep:
  "sep \<notin> set k \<Longrightarrow> split_from sep cur (k @ rest) = split_from sep (cur @ k) rest"
  by (induction k arbitrary: cur) auto

lemma split_from_join:
  "ks \<noteq> [] \<Longrightarrow> \<forall>k \<in> set ks. c \<notin> set k
   \<Longrightarrow> split_from c cur (join [c] ks) = (cur @ hd ks) # tl ks"
proof (induction "[c]" ks arbitrary: cur rule: join.induct)
  case 1
  then show ?case by simp
next
  case (2 x)
  then show ?case
    using split_from_no_sep [of c x cur "[]"] by simp
next
  case (3 x y ys)
  have "split_from c cur (x @ c # join [c] (y # ys)) = split_from c (cur @ x) (c # join [c] (y # ys))"
    using 3(3) by (intro split_from_no_sep) simp
  also have "\<dots> = (cur @ x) # split_from c [] (join [c] (y # ys))"
    by simp
  also have "split_from c [] (join [c] (y # ys)) = ([] @ hd (y # ys)) # tl (y # ys)"
    using 3(3) by (intro 3(1)) simp_all
  finally show ?case by simp
qed

lemma split_on_join:
  "ks \<noteq> [] \<Longrightarrow> \<forall>k \<in> set ks. c \<notin> set k \<Longrightarrow> split_on c (join [c] ks) = ks"
  using split_from_join [of ks c "[]"] by (simp add: split_on_def)

lemma join_nonempty: "ks \<noteq> [] \<Longrightarrow> hd ks \<noteq> [] \<Longrightarrow> join sep ks \<noteq> []"
  by (cases "(sep, ks)" rule: join.cases) auto

lemma keywords_round_trip:
  assumes "\<forall>k \<in> set ks. k \<noteq> [] \<and> CHR '','' \<notin> set k"
  shows "(if keywords_str (Val ks) \<noteq> [] then split_on (CHR '','') (keywords_str (Val ks)) else [])
         = ks"
proof (cases "ks = []")
  case True
  then show ?thesis by (simp add: keywords_str_def)
next
  case False
  then have "hd ks \<in> set ks" by simp
  with assms have "hd ks \<noteq> [] \<and> CHR '','' \<notin> set (hd ks)" by (rule bspec)
  then have "hd ks \<noteq> []" by (rule conjunct1)
  then have "join '','' ks \<noteq> []" using False by (rule join_nonempty [rotated])
  moreover have "split_on (CHR '','') (join '','' ks) = ks"
    using False assms by (intro split_on_join) simp_all
  ultimately show ?thesis using False by (simp add: keywords_str_def)
qed

lemma read_rows_all_parse:
  "\<forall>r \<in> set rows. parse (col_date r) \<noteq> None \<Longrightarrow> \<exists>out. read_rows parse rows = Inr out"
  by (induction rows) auto

lemma read_rows_member:
  "read_rows parse rows = Inr out \<Longrightarrow> r \<in> set rows \<Longrightarrow> parse (col_date r) = Some d
   \<Longrightarrow> \<lparr>out_date = d, out_title = col_title r, out_content = col_content r,
        out_sentiment_score = col_sentiment_score r, out_mood_category = col_mood_category r,
        out_keywords = (if col_keywords r \<noteq> [] then split_on (CHR '','') (col_keywords r)
                        else [])\<rparr> \<in> set out"
  by (induction rows arbitrary: out) (auto split: option.splits sum.splits)

lemma extract_keywords_tokens:
  assumes "k \<in> set (extract_keywords text min_length max_words)"
  shows "k \<noteq> [] \<and> CHR '','' \<notin> set k"
proof -
  have "set (extract_keywords text min_length max_words)
          \<subseteq> set (clean_loop min_length [] (split_ws (lower text)))"
    by (simp add: extract_keywords_def slice_to_def set_take_subset)
  then have "k \<in> set (clean_loop min_length [] (split_ws (lower text)))"
    using assms by (rule subsetD)
  then have k: "k \<in> strip_non_letters ` set (split_ws (lower text))" "keeps_word min_length k"
    by (simp_all add: clean_loop_filter)
  then obtain w where "k = filter is_ascii_alpha w"
    by (auto simp: strip_non_letters_def)
  then have "\<forall>c \<in> set k. is_ascii_alpha c"
    by simp
  moreover have "\<not> is_ascii_alpha (CHR '','')"
    by (simp add: is_ascii_alpha_def is_ascii_lower_def is_ascii_upper_def)
  ultimately have "CHR '','' \<notin> set k"
    by metis
  moreover have "k \<noteq> []"
    using k(2) by (simp add: keeps_word_def isalpha_def)
  ultimately show ?thesis by simp
qed

text \<open>
  Claim C5. An analysed entry whose keywords are non-empty tokens without a comma (as the
  tokens of \<open>extract_keywords\<close> are) is inserted, and \<open>get_all_entries\<close> then returns
  a frame with a row that has the entry's date, title, content, sentiment score and
  mood category, and whose keyword list, split from the stored text, is the entry's.
  Of the parser it is assumed that it parses the date column of the store after the
  insertion, and reads the text of the entry's timestamp back as that timestamp.
\<close>

theorem insert_then_get_all_entries:
  assumes "orders_by_desc col_date order_by"
    and "\<forall>k \<in> set (entry_keywords e). k \<noteq> [] \<and> CHR '','' \<notin> set k"
    and "\<forall>s \<in> set (map col_date (order_by (snd (insert_entries db [row_of_entry e])))).
           to_datetime (map col_date (order_by (snd (insert_entries db [row_of_entry e])))) s
             \<noteq> None"
    and "to_datetime (map col_date (order_by (snd (insert_entries db [row_of_entry e]))))
           (str_timestamp (date e)) = Some (date e)"
  shows "fst (insert_entries db [row_of_entry e]) = Inr 1
         \<and> (\<exists>out. get_all_entries order_by to_datetime (snd (insert_entries db [row_of_entry e]))
                     = Inr out
                \<and> (\<exists>r \<in> set out.
                      out_date r = date e \<and> out_title r = Some (title e)
                      \<and> out_content r = content e
                      \<and> out_sentiment_score r = Some (sentiment_score e)
                      \<and> out_mood_category r = Some (mood_category e)
                      \<and> out_keywords r = entry_keywords e))"
proof -
  let ?s = "\<lparr>col_date = str_timestamp (date e), col_title = Some (title e),
             col_content = content e, col_sentiment_score = Some (sentiment_score e),
             col_mood_category = Some (mood_category e),
             col_keywords = keywords_str (Val (entry_keywords e))\<rparr>"
  let ?rows = "order_by (db @ [?s])"
  let ?parse = "to_datetime (map col_date ?rows)"
  have ins: "insert_entries db [row_of_entry e] = (Inr 1, db @ [?s])"
    by (rule insert_row_of_entry)
  have "mset ?rows = mset (db @ [?s])"
    using assms(1) by (simp add: orders_by_desc_def)
  then have "set ?rows = set (db @ [?s])"
    by (rule mset_eq_setD)
  then have rows: "set ?rows = set db \<union> {?s}"
    by simp
  have "\<forall>r \<in> set ?rows. ?parse (col_date r) \<noteq> None"
    using assms(3) by (simp add: ins)
  from read_rows_all_parse [OF this]
  obtain out where out: "read_rows ?parse ?rows = Inr out"
    by (rule exE)
  have "?s \<in> set ?rows"
    using rows by simp
  moreover have "?parse (col_date ?s) = Some (date e)"
    using assms(4) by (simp add: ins)
  ultimately have
    "\<lparr>out_date = date e, out_title = col_title ?s, out_content = col_content ?s,
      out_sentiment_score = col_sentiment_score ?s, out_mood_category = col_mood_category ?s,
      out_keywords = (if col_keywords ?s \<noteq> [] then split_on (CHR '','') (col_keywords ?s)
                      else [])\<rparr> \<in> set out"
    using out by (intro read_rows_member)
  then have "\<lparr>out_date = date e, out_title = Some (title e), out_content = content e,
      out_sentiment_score = Some (sentiment_score e), out_mood_category = Some (mood_category e),
      out_keywords = entry_keywords e\<rparr> \<in> set out"
    using keywords_round_trip [OF assms(2)] by (simp cong: if_cong)
  then have "\<exists>r \<in> set out.
               out_date r = date e \<and> out_title r = Some (title e) \<and> out_content r = content e
               \<and> out_sentiment_score r = Some (sentiment_score e)
               \<and> out_mood_category r = Some (mood_category e)
               \<and> out_keywords r = entry_keywords e"
    by (rule rev_bexI) simp
  then show ?thesis
    using ins out by (simp add: get_all_entries_def read_frame_def)
qed

theorem insert_then_get_all_entries_witness:
  "orders_by_desc col_date order_by_date_desc
   \<and> list_all (\<lambda>k. k \<noteq> [] \<and> CHR '','' \<notin> set k) (entry_keywords sample_entry)
   \<and> map col_date (order_by_date_desc (snd (insert_entries [] [row_of_entry sample_entry])))
       = [''2025-01-10 00:00:00'']
   \<and> parse_timestamp ''2025-01-10 00:00:00'' = Some (date sample_entry)
   \<and> fst (insert_entries [] [row_of_entry sample_entry]) = Inr 1
   \<and> get_all_entries order_by_date_desc (\<lambda>col. parse_timestamp)
        (snd (insert_entries [] [row_of_entry sample_entry]))
       = Inr [\<lparr>out_date = sample_date, out_title = Some ''Morning thoughts'',
                out_content = ''Today was wonderful'', out_sentiment_score = Some 1,
                out_mood_category = Some ''Very Positive'',
                out_keywords = [''today'', ''wonderful'']\<rparr>]"
proof -
  have a: "orders_by_desc col_date order_by_date_desc"
    by (rule order_by_date_desc_orders)
  have b: "\<forall>k \<in> set (entry_keywords sample_entry). k \<noteq> [] \<and> CHR '','' \<notin> set k"
    by (simp add: sample_entry_def)
  have col: "map col_date (order_by_date_desc (snd (insert_entries [] [row_of_entry sample_entry])))
       = [''2025-01-10 00:00:00'']"
    by (simp add: insert_sample order_by_date_desc_def sample_stored_def)
  have p: "parse_timestamp ''2025-01-10 00:00:00'' = Some (date sample_entry)"
  proof -
    have "parse_timestamp ''2025-01-10 00:00:00'' = Some sample_date"
      unfolding sample_date_def by code_simp
    then show ?thesis
      by (simp add: sample_entry_def)
  qed
  have c: "\<forall>s \<in> set (map col_date
               (order_by_date_desc (snd (insert_entries [] [row_of_entry sample_entry])))).
             (\<lambda>col. parse_timestamp)
               (map col_date
                  (order_by_date_desc (snd (insert_entries [] [row_of_entry sample_entry])))) s
             \<noteq> None"
    unfolding col using p by simp
  have d: "(\<lambda>col. parse_timestamp)
             (map col_date
                (order_by_date_desc (snd (insert_entries [] [row_of_entry sample_entry]))))
             (str_timestamp (date sample_entry)) = Some (date sample_entry)"
    using p by (simp add: sample_str)
  from insert_then_get_all_entries [OF a b c d]
  obtain out r where out: "get_all_entries order_by_date_desc (\<lambda>col. parse_timestamp)
        (snd (insert_entries [] [row_of_entry sample_entry])) = Inr out"
    and r: "r \<in> set out" "out_date r = date sample_entry"
      "out_title r = Some (title sample_entry)" "out_content r = content sample_entry"
      "out_sentiment_score r = Some (sentiment_score sample_entry)"
      "out_mood_category r = Some (mood_category sample_entry)"
      "out_keywords r = entry_keywords sample_entry"
    and n: "fst (insert_entries [] [row_of_entry sample_entry]) = Inr 1"
    by auto
  have "length out = 1"
    using out
    by (auto simp: get_all_entries_def read_frame_def insert_row_of_entry order_by_date_desc_def
        split: option.splits)
  then have "out = [r]"
    using r(1) by (cases out) auto
  moreover have "r = \<lparr>out_date = sample_date, out_title = Some ''Morning thoughts'',
                out_content = ''Today was wonderful'', out_sentiment_score = Some 1,
                out_mood_category = Some ''Very Positive'',
                out_keywords = [''today'', ''wonderful'']\<rparr>"
    using r(2-7) by (cases r) (simp add: sample_entry_def)
  ultimately show ?thesis
    using a b col p n out by (simp add: list_all_iff)
qed

subsection \<open>Date range\<close>

text \<open>
  What the query returns: the rows whose stored date text lies between the two
  arguments in the order of texts, in descending order of that text.
\<close>

lemma date_range_rows:
  assumes "orders_by_desc col_date order_by"
  shows "\<exists>rows. get_entries_by_date_range order_by to_datetime db start_date end_date
                   = read_frame to_datetime rows
           \<and> mset rows
               = mset (filter (\<lambda>r. start_date \<le> col_date r \<and> col_date r \<le> end_date) db)
           \<and> sorted (rev (map col_date rows))"
  using assms by (auto simp: get_entries_by_date_range_def orders_by_desc_def)

text \<open>
  The text of a timestamp is greater than its first ten characters, its date: a row
  stored from a \<open>Timestamp\<close> lies outside every range that ends with its own date.
\<close>

lemma proper_prefix_less: "ys \<noteq> [] \<Longrightarrow> (xs :: string) < xs @ ys"
  by (induction xs) (auto simp: neq_Nil_conv)

lemma zero_pad_length: "w \<le> length (zero_pad w s)"
  by (simp add: zero_pad_def)

lemma str_timestamp_length: "19 \<le> length (str_timestamp t)"
proof -
  have y: "4 \<le> length (zero_pad 4 (decimal (year t)))"
    by (rule zero_pad_length)
  have f: "2 \<le> length (format_02d n)" for n
    unfolding format_02d_def by (rule zero_pad_length)
  show ?thesis
    unfolding str_timestamp_def
    using y f [of "month t"] f [of "day t"] f [of "hour t"] f [of "minute t"] f [of "second t"]
    by simp
qed

lemma timestamp_text_after_its_date:
  "\<not> str_timestamp t \<le> take 10 (str_timestamp t)"
proof -
  have "drop 10 (str_timestamp t) \<noteq> []"
    using str_timestamp_length [of t] by simp
  then have "take 10 (str_timestamp t) < take 10 (str_timestamp t) @ drop 10 (str_timestamp t)"
    by (rule proper_prefix_less)
  then show ?thesis
    by (simp add: not_le)
qed

lemma not_in_range: "\<not> (''2025-01-10 00:00:00'' :: string) \<le> ''2025-01-10''"
  by code_simp

text \<open>
  Claim C3. A row whose entry carries the end date of the range is meant to be returned.
  An entry of 2025-01-10 that went through \<open>analyze_journal_entries\<close> is stored with
  the date text \<open>2025-01-10 00:00:00\<close>, which is greater than the text \<open>2025-01-10\<close>, and
  the query for the range from 2025-01-01 to 2025-01-10 returns no row.
\<close>

theorem date_range_misses_end_date:
  "insert_entries [] [row_of_entry sample_entry] = (Inr 1, [sample_stored])
   \<and> col_date sample_stored = ''2025-01-10 00:00:00''
   \<and> get_entries_by_date_range order_by_date_desc (\<lambda>col. parse_timestamp) [sample_stored]
        ''2025-01-01'' ''2025-01-10'' = (Inr [] :: error + timestamp fetched_row list)"
proof -
  have "filter (\<lambda>r. ''2025-01-01'' \<le> col_date r \<and> col_date r \<le> ''2025-01-10'') [sample_stored] = []"
    using not_in_range by (simp add: sample_stored_def)
  then have "get_entries_by_date_range order_by_date_desc (\<lambda>col. parse_timestamp) [sample_stored]
        ''2025-01-01'' ''2025-01-10'' = (Inr [] :: error + timestamp fetched_row list)"
    by (simp add: get_entries_by_date_range_def order_by_date_desc_def read_frame_def)
  then show ?thesis
    using insert_sample by (simp add: sample_stored_def)
qed


end
